theory Spec2Isabelle
  imports Main
begin

section \<open>JavaScript values\<close>

text \<open>
  The values that flow through \<^verbatim>\<open>src/cache.ts\<close>: call arguments, producer results and
  cache contents. Numbers are the integers among the JavaScript numbers, with \<open>NaN\<close> and
  the two infinities apart; strings are lists of code units below 256. Arrays and objects
  are trees; an object is its list of own enumerable properties in enumeration order.
  \<open>JAncestor k\<close> stands for a reference to the \<open>k\<close>-th enclosing array or object, which
  is how a cyclic structure appears in a tree.
\<close>

datatype jsval =
    JUndefined
  | JNull
  | JBool bool
  | JNum int
  | JNaN
  | JInfinity
  | JNegInfinity
  | JBigInt int
  | JStr string
  | JSymbol
  | JFunction
  | JArray "jsval list"
  | JObject "(string \<times> jsval) list"
  | JAncestor nat

text \<open>What a JavaScript \<^verbatim>\<open>throw\<close> carries: the \<open>TypeError\<close> of the built-ins, or any
  value a producer rejects with.\<close>

datatype error = TypeError | Thrown jsval

section \<open>\<^verbatim>\<open>JSON.stringify\<close>\<close>

text \<open>
  \<^verbatim>\<open>JSON.stringify(value)\<close> with no replacer and no indentation, after ECMA-262
  (\<open>SerializeJSONProperty\<close>, \<open>SerializeJSONArray\<close>, \<open>SerializeJSONObject\<close>,
  \<open>QuoteJSONString\<close>). No value of \<open>jsval\<close> has a \<open>toJSON\<close> method.
\<close>

definition digit_char :: "nat \<Rightarrow> char" where
  "digit_char d = ''0123456789abcdef'' ! d"

function digits :: "nat \<Rightarrow> string" where
  "digits n = (if n < 10 then [digit_char n] else digits (n div 10) @ [digit_char (n mod 10)])"
  by pat_completeness auto
termination
  by (relation "measure id") auto

declare digits.simps [simp del]

text \<open>\<open>Number::toString\<close> on an integer.\<close>

definition Number_toString :: "int \<Rightarrow> string" where
  "Number_toString i = (if i < 0 then CHR ''-'' # digits (nat (- i)) else digits (nat i))"

definition backslash :: char where
  "backslash = CHR 0x5C"

definition dquote :: char where
  "dquote = CHR 0x22"

text \<open>One code unit of \<open>QuoteJSONString\<close>: the table of two-character escapes, then
  \<^verbatim>\<open>\u00XX\<close> for the other control characters, then the character itself.\<close>

definition escape_char :: "char \<Rightarrow> string" where
  "escape_char c =
     (if c = CHR 0x08 then [backslash, CHR ''b'']
      else if c = CHR 0x09 then [backslash, CHR ''t'']
      else if c = CHR 0x0A then [backslash, CHR ''n'']
      else if c = CHR 0x0C then [backslash, CHR ''f'']
      else if c = CHR 0x0D then [backslash, CHR ''r'']
      else if c = dquote then [backslash, dquote]
      else if c = backslash then [backslash, backslash]
      else if (of_char c :: nat) < 0x20 then
        [backslash, CHR ''u'', CHR ''0'', CHR ''0'',
         digit_char (of_char c div 16), digit_char (of_char c mod 16)]
      else [c])"

definition QuoteJSONString :: "string \<Rightarrow> string" where
  "QuoteJSONString s = dquote # concat (map escape_char s) @ [dquote]"

text \<open>\<^verbatim>\<open>Array.prototype.join\<close> on strings.\<close>

fun join :: "string \<Rightarrow> string list \<Rightarrow> string" where
  "join sep [] = []"
| "join sep [s] = s"
| "join sep (s # t # ss) = s @ sep @ join sep (t # ss)"

text \<open>Running the serialisations of the elements in order: the first exception wins.\<close>

fun collect :: "(error + 'a) list \<Rightarrow> error + 'a list" where
  "collect [] = Inr []"
| "collect (Inl e # rs) = Inl e"
| "collect (Inr x # rs) = (case collect rs of Inl e \<Rightarrow> Inl e | Inr xs \<Rightarrow> Inr (x # xs))"

text \<open>
  \<open>SerializeJSONProperty\<close>: \<open>Inr None\<close> is the result \<^verbatim>\<open>undefined\<close>. An array prints
  \<^verbatim>\<open>null\<close> for an element that serialises to \<^verbatim>\<open>undefined\<close>; an object leaves such a
  property out. A \<open>BigInt\<close> and an object that is already on the stack of objects being
  serialised raise \<open>TypeError\<close>.
\<close>

fun SerializeJSONProperty :: "jsval \<Rightarrow> error + string option" where
  "SerializeJSONProperty JUndefined = Inr None"
| "SerializeJSONProperty JNull = Inr (Some ''null'')"
| "SerializeJSONProperty (JBool b) = Inr (Some (if b then ''true'' else ''false''))"
| "SerializeJSONProperty (JNum i) = Inr (Some (Number_toString i))"
| "SerializeJSONProperty JNaN = Inr (Some ''null'')"
| "SerializeJSONProperty JInfinity = Inr (Some ''null'')"
| "SerializeJSONProperty JNegInfinity = Inr (Some ''null'')"
| "SerializeJSONProperty (JBigInt i) = Inl TypeError"
| "SerializeJSONProperty (JStr s) = Inr (Some (QuoteJSONString s))"
| "SerializeJSONProperty JSymbol = Inr None"
| "SerializeJSONProperty JFunction = Inr None"
| "SerializeJSONProperty (JArray xs) =
     (case collect (map SerializeJSONProperty xs) of
        Inl e \<Rightarrow> Inl e
      | Inr ss \<Rightarrow>
          Inr (Some (''['' @ join '','' (map (\<lambda>s. case s of None \<Rightarrow> ''null'' | Some t \<Rightarrow> t) ss)
                      @ '']'')))"
| "SerializeJSONProperty (JObject ps) =
     (case collect (map (\<lambda>(k, v). case SerializeJSONProperty v of
                                     Inl e \<Rightarrow> Inl e
                                   | Inr s \<Rightarrow> Inr (k, s)) ps) of
        Inl e \<Rightarrow> Inl e
      | Inr ms \<Rightarrow>
          Inr (Some (''{'' @ join '',''
                        (concat (map (\<lambda>(k, s). case s of
                                                  None \<Rightarrow> []
                                                | Some t \<Rightarrow> [QuoteJSONString k @ '':'' @ t]) ms))
                      @ ''}'')))"
| "SerializeJSONProperty (JAncestor k) = Inl TypeError"

text \<open>\<^verbatim>\<open>JSON.stringify\<close> itself: \<open>None\<close> when the value serialises to \<^verbatim>\<open>undefined\<close>.\<close>

definition JSON_stringify :: "jsval \<Rightarrow> error + string option" where
  "JSON_stringify v = SerializeJSONProperty v"

section \<open>\<^verbatim>\<open>src/cache.ts\<close>: key derivation\<close>

text \<open>
  \<^verbatim>\<open>function deriveKey(args: unknown[]): string {
    return args.length === 0 ? "_" : JSON.stringify(args);
  }\<close>
  The argument is always an array, for which \<^verbatim>\<open>JSON.stringify\<close> returns a string or
  throws; the branch for \<^verbatim>\<open>undefined\<close> is there only to make the function total.
\<close>

definition deriveKey :: "jsval list \<Rightarrow> error + string" where
  "deriveKey args =
     (if length args = 0 then Inr ''_''
      else case JSON_stringify (JArray args) of
             Inl e \<Rightarrow> Inl e
           | Inr None \<Rightarrow> Inr ''undefined''
           | Inr (Some s) \<Rightarrow> Inr s)"

section \<open>Configuration\<close>

text \<open>The four values of \<^verbatim>\<open>astro:env/server\<close>; the durations are in milliseconds.\<close>

record env =
  ASTRO_CACHE_DIR :: string
  ASTRO_CACHE_ENABLED :: bool
  ASTRO_CACHE_MIN_TIME_TO_STALE :: int
  ASTRO_CACHE_MAX_TIME_TO_LIVE :: int

text \<open>\<^verbatim>\<open>const FLAT_CACHE_TTL = ASTRO_CACHE_MAX_TIME_TO_LIVE * 2; // GC backstop\<close>\<close>

definition FLAT_CACHE_TTL :: "env \<Rightarrow> int" where
  "FLAT_CACHE_TTL e = ASTRO_CACHE_MAX_TIME_TO_LIVE e * 2"

text \<open>The operator \<^verbatim>\<open>??\<close> on an optional field.\<close>

definition nullish :: "'a option \<Rightarrow> 'a \<Rightarrow> 'a" where
  "nullish x d = (case x of None \<Rightarrow> d | Some y \<Rightarrow> y)"

section \<open>The persistent store\<close>

text \<open>
  Modelled from the spec: the \<^verbatim>\<open>flat-cache\<close> package, which \<^verbatim>\<open>src/cache.ts\<close> imports
  and the repository does not contain. After section 4.2 of the specification: a named
  key-value container with \<open>get\<close>, \<open>set\<close>, \<open>remove\<close>, \<open>clear\<close>, \<open>load\<close> and \<open>save\<close>;
  eviction of the least recently used entry by entry count when \<open>lruSize > 0\<close>,
  no bound otherwise; every entry dropped once its age is past \<open>ttl\<close>, when \<open>ttl > 0\<close>;
  \<open>load\<close> starts empty when there is no file. An item is a key, its value and the
  time it was stored; \<open>items\<close> has the most recently used item first. The clock is
  the argument \<open>now\<close> of the operations that read it.
\<close>

type_synonym item = "string \<times> jsval \<times> int"

record FlatCache =
  cacheId :: string
  cacheDir :: string
  ttl :: int
  lruSize :: int
  items :: "item list"

type_synonym filesystem = "string \<Rightarrow> item list option"

definition dropped :: "int \<Rightarrow> int \<Rightarrow> bool" where
  "dropped t age = (0 < t \<and> t < age)"

definition without :: "string \<Rightarrow> item list \<Rightarrow> item list" where
  "without k its = filter (\<lambda>it. fst it \<noteq> k) its"

definition evict :: "int \<Rightarrow> item list \<Rightarrow> item list" where
  "evict n its = (if 0 < n then take (nat n) its else its)"

definition FlatCache_get :: "FlatCache \<Rightarrow> string \<Rightarrow> int \<Rightarrow> jsval \<times> FlatCache" where
  "FlatCache_get fc k now =
     (case find (\<lambda>it. fst it = k) (items fc) of
        None \<Rightarrow> (JUndefined, fc)
      | Some it \<Rightarrow>
          if dropped (ttl fc) (now - snd (snd it))
          then (JUndefined, fc\<lparr>items := without k (items fc)\<rparr>)
          else (fst (snd it), fc\<lparr>items := it # without k (items fc)\<rparr>))"

definition FlatCache_set :: "FlatCache \<Rightarrow> string \<Rightarrow> jsval \<Rightarrow> int \<Rightarrow> FlatCache" where
  "FlatCache_set fc k v now =
     fc\<lparr>items := evict (lruSize fc) ((k, v, now) # without k (items fc))\<rparr>"

definition FlatCache_removeKey :: "FlatCache \<Rightarrow> string \<Rightarrow> FlatCache" where
  "FlatCache_removeKey fc k = fc\<lparr>items := without k (items fc)\<rparr>"

definition FlatCache_clear :: "FlatCache \<Rightarrow> FlatCache" where
  "FlatCache_clear fc = fc\<lparr>items := []\<rparr>"

definition cacheFilePath :: "FlatCache \<Rightarrow> string" where
  "cacheFilePath fc = cacheDir fc @ ''/'' @ cacheId fc"

definition FlatCache_load :: "FlatCache \<Rightarrow> filesystem \<Rightarrow> FlatCache" where
  "FlatCache_load fc fs =
     (case fs (cacheFilePath fc) of None \<Rightarrow> fc | Some its \<Rightarrow> fc\<lparr>items := its\<rparr>)"

definition FlatCache_save :: "FlatCache \<Rightarrow> filesystem \<Rightarrow> filesystem" where
  "FlatCache_save fc fs = fs(cacheFilePath fc \<mapsto> items fc)"

section \<open>The process state\<close>

text \<open>
  The \<open>FlatCache\<close> objects that \<open>swr\<close> and \<open>memo\<close> create live in a store of objects,
  by address; each wrapped function closes over the address of its own. \<open>producers\<close>
  is whatever state the wrapped functions read and write. A producer is an async
  function: awaited, it returns a value or rejects. Calls are awaited one after the
  other, and a call reads the clock once: its \<open>now\<close>.
\<close>

record 'p world =
  stores :: "nat \<Rightarrow> FlatCache"
  allocated :: nat
  files :: filesystem
  producers :: 'p

type_synonym 'p producer = "jsval list \<Rightarrow> 'p \<Rightarrow> (error + jsval) \<times> 'p"

definition call :: "'p producer \<Rightarrow> jsval list \<Rightarrow> 'p world \<Rightarrow> (error + jsval) \<times> 'p world" where
  "call fn args w = (let (r, p) = fn args (producers w) in (r, w\<lparr>producers := p\<rparr>))"

definition get_at :: "nat \<Rightarrow> string \<Rightarrow> int \<Rightarrow> 'p world \<Rightarrow> jsval \<times> 'p world" where
  "get_at a k now w =
     (let (v, fc) = FlatCache_get (stores w a) k now in (v, w\<lparr>stores := (stores w)(a := fc)\<rparr>))"

definition set_at :: "nat \<Rightarrow> string \<Rightarrow> jsval \<Rightarrow> int \<Rightarrow> 'p world \<Rightarrow> 'p world" where
  "set_at a k v now w = w\<lparr>stores := (stores w)(a := FlatCache_set (stores w a) k v now)\<rparr>"

definition removeKey_at :: "nat \<Rightarrow> string \<Rightarrow> 'p world \<Rightarrow> 'p world" where
  "removeKey_at a k w = w\<lparr>stores := (stores w)(a := FlatCache_removeKey (stores w a) k)\<rparr>"

definition clear_at :: "nat \<Rightarrow> 'p world \<Rightarrow> 'p world" where
  "clear_at a w = w\<lparr>stores := (stores w)(a := FlatCache_clear (stores w a))\<rparr>"

definition save_at :: "nat \<Rightarrow> 'p world \<Rightarrow> 'p world" where
  "save_at a w = w\<lparr>files := FlatCache_save (stores w a) (files w)\<rparr>"

section \<open>The stale-while-revalidate policy\<close>

text \<open>
  Modelled from the spec: the \<^verbatim>\<open>stale-while-revalidate-cache\<close> package, which
  \<^verbatim>\<open>src/cache.ts\<close> imports and the repository does not contain. After section 4.4 of the
  specification: per key, with \<open>age = now - storedAt\<close>, \<open>absent\<close> and \<open>expired\<close>
  (\<open>age \<ge> maxTimeToLive\<close>, looked at first) invoke the producer, store value and timestamp and return
  the fresh value; \<open>fresh\<close> (\<open>age < minTimeToStale\<close>) returns the stored value;
  \<open>stale\<close> returns the stored value and revalidates, overwriting value and timestamp
  only when the producer succeeds and swallowing its failure. A value without its
  timestamp is a miss. The timestamp of a key is stored under a second key (the comment
  in \<open>swr\<close> names it \<^verbatim>\<open>__swr_time__\<close>). The revalidation of a stale entry is run to its
  end within the call that starts it: interleavings of calls are not modelled.
\<close>

record 'w storage =
  getItem :: "string \<Rightarrow> int \<Rightarrow> 'w \<Rightarrow> jsval \<times> 'w"
  setItem :: "string \<Rightarrow> jsval \<Rightarrow> int \<Rightarrow> 'w \<Rightarrow> 'w"
  removeItem :: "string \<Rightarrow> 'w \<Rightarrow> 'w"

datatype freshness = Absent | Fresh | Stale | Expired

record swr_result =
  result_value :: jsval
  result_status :: freshness

definition timeKey :: "string \<Rightarrow> string" where
  "timeKey key = key @ ''__swr_time__''"

definition classify :: "int \<Rightarrow> int \<Rightarrow> jsval \<Rightarrow> jsval \<Rightarrow> int \<Rightarrow> freshness" where
  "classify minTimeToStale maxTimeToLive v t now =
     (if v = JNull \<or> v = JUndefined then Absent
      else case t of
             JNum storedAt \<Rightarrow>
               if maxTimeToLive \<le> now - storedAt then Expired
               else if now - storedAt < minTimeToStale then Fresh
               else Stale
           | _ \<Rightarrow> Absent)"

definition persist_value :: "'w storage \<Rightarrow> string \<Rightarrow> jsval \<Rightarrow> int \<Rightarrow> 'w \<Rightarrow> 'w" where
  "persist_value st key v now w = setItem st (timeKey key) (JNum now) now (setItem st key v now w)"

definition createStaleWhileRevalidateCache ::
  "'w storage \<Rightarrow> int \<Rightarrow> int \<Rightarrow>
   string \<Rightarrow> ('w \<Rightarrow> (error + jsval) \<times> 'w) \<Rightarrow> int \<Rightarrow> 'w \<Rightarrow> (error + swr_result) \<times> 'w" where
  "createStaleWhileRevalidateCache st minTimeToStale maxTimeToLive key fn now w =
     (let (v, w1) = getItem st key now w;
          (t, w2) = getItem st (timeKey key) now w1;
          status = classify minTimeToStale maxTimeToLive v t now
      in if status = Fresh then
           (Inr \<lparr>result_value = v, result_status = Fresh\<rparr>, w2)
         else if status = Stale then
           (Inr \<lparr>result_value = v, result_status = Stale\<rparr>,
            case fn w2 of
              (Inl e, w3) \<Rightarrow> w3
            | (Inr v', w3) \<Rightarrow> persist_value st key v' now w3)
         else
           (case fn w2 of
              (Inl e, w3) \<Rightarrow> (Inl e, w3)
            | (Inr v', w3) \<Rightarrow>
                (Inr \<lparr>result_value = v', result_status = status\<rparr>,
                 persist_value st key v' now w3)))"

section \<open>\<^verbatim>\<open>src/cache.ts\<close>: the wrappers and the registry\<close>

text \<open>
  \<^verbatim>\<open>type Clearable = { clear(): void }\<close>: a method that returns nothing and may throw
  (\<open>Some\<close> is the exception).
  \<^verbatim>\<open>const caches: Clearable[] = []\<close> is the field \<open>caches\<close> of the module state.
  A wrapped function is its call, at a time \<open>now\<close>, and its \<open>clear\<close>.
\<close>

type_synonym 'w Clearable = "'w \<Rightarrow> error option \<times> 'w"

record 'p cached =
  invoke :: "jsval list \<Rightarrow> int \<Rightarrow> 'p world \<Rightarrow> (error + jsval) \<times> 'p world"
  clear :: "'p world Clearable"

record 'p module =
  caches :: "'p world Clearable list"
  world :: "'p world"

record options =
  opt_name :: string
  opt_max :: "int option"

record memo_options = options +
  opt_ttl :: "int option"
  opt_persist :: "bool option"

text \<open>The branch of both wrappers for \<^verbatim>\<open>!ASTRO_CACHE_ENABLED\<close>:
  \<^verbatim>\<open>Object.assign((...args) => fn(...args), { clear(): void {} })\<close>.\<close>

definition passthrough :: "'p producer \<Rightarrow> 'p cached" where
  "passthrough fn = \<lparr>invoke = (\<lambda>args now w. call fn args w), clear = (\<lambda>w. (None, w))\<rparr>"

text \<open>The \<^verbatim>\<open>new FlatCache({...})\<close> of \<open>swr\<close>: twice the caller's \<open>max\<close> as \<open>lruSize\<close>,
  since the policy keeps two entries per key.\<close>

definition swr_FlatCache :: "env \<Rightarrow> 'a options_scheme \<Rightarrow> FlatCache" where
  "swr_FlatCache e options =
     \<lparr>cacheId = opt_name options,
      cacheDir = ASTRO_CACHE_DIR e,
      ttl = FLAT_CACHE_TTL e,
      lruSize = (if nullish (opt_max options) 0 = 0 then 0 else nullish (opt_max options) 0 * 2),
      items = []\<rparr>"

definition swr_storage :: "nat \<Rightarrow> 'p world storage" where
  "swr_storage a =
     \<lparr>getItem = (\<lambda>key now w. let (v, w') = get_at a key now w
                              in (if v = JUndefined \<or> v = JNull then JNull else v, w')),
      setItem = (\<lambda>key v now w. save_at a (set_at a key v now w)),
      removeItem = (\<lambda>key w. save_at a (removeKey_at a key w))\<rparr>"

text \<open>The wrapped function of \<open>swr\<close>, for the \<open>FlatCache\<close> at address \<open>a\<close>.\<close>

definition swr_cached :: "env \<Rightarrow> nat \<Rightarrow> 'p producer \<Rightarrow> 'p cached" where
  "swr_cached e a fn =
     (let swrCache = createStaleWhileRevalidateCache (swr_storage a)
                       (ASTRO_CACHE_MIN_TIME_TO_STALE e) (ASTRO_CACHE_MAX_TIME_TO_LIVE e)
      in \<lparr>invoke = (\<lambda>args now w.
              case deriveKey args of
                Inl err \<Rightarrow> (Inl err, w)
              | Inr key \<Rightarrow>
                  (case swrCache key (call fn args) now w of
                     (Inl err, w') \<Rightarrow> (Inl err, w')
                   | (Inr result, w') \<Rightarrow> (Inr (result_value result), w'))),
          clear = (\<lambda>w. (None, save_at a (clear_at a w)))\<rparr>)"

definition swr :: "env \<Rightarrow> 'p producer \<Rightarrow> 'a options_scheme \<Rightarrow> 'p module \<Rightarrow> 'p cached \<times> 'p module" where
  "swr e fn options m =
     (if \<not> ASTRO_CACHE_ENABLED e then (passthrough fn, m)
      else
        let a = allocated (world m);
            flatCache = FlatCache_load (swr_FlatCache e options) (files (world m));
            cached = swr_cached e a fn
        in (cached,
            m\<lparr>caches := caches m @ [clear cached],
              world := (world m)\<lparr>stores := (stores (world m))(a := flatCache),
                                 allocated := a + 1\<rparr>\<rparr>))"

text \<open>The \<^verbatim>\<open>new FlatCache({...})\<close> of \<open>memo\<close>.\<close>

definition memo_FlatCache :: "env \<Rightarrow> 'a memo_options_scheme \<Rightarrow> FlatCache" where
  "memo_FlatCache e options =
     \<lparr>cacheId = opt_name options,
      cacheDir = ASTRO_CACHE_DIR e,
      ttl = nullish (opt_ttl options) (ASTRO_CACHE_MIN_TIME_TO_STALE e),
      lruSize = nullish (opt_max options) 0,
      items = []\<rparr>"

text \<open>The wrapped function of \<open>memo\<close>, for the \<open>FlatCache\<close> at address \<open>a\<close>.\<close>

definition memo_cached :: "nat \<Rightarrow> bool \<Rightarrow> 'p producer \<Rightarrow> 'p cached" where
  "memo_cached a persist fn =
     \<lparr>invoke = (\<lambda>args now w.
          case deriveKey args of
            Inl err \<Rightarrow> (Inl err, w)
          | Inr key \<Rightarrow>
              let (existing, w1) = get_at a key now w
              in if existing \<noteq> JUndefined then (Inr existing, w1)
                 else (case call fn args w1 of
                         (Inl err, w2) \<Rightarrow> (Inl err, w2)
                       | (Inr v, w2) \<Rightarrow>
                           let w3 = set_at a key v now w2;
                               w4 = (if persist then save_at a w3 else w3)
                           in (Inr v, w4))),
      clear = (\<lambda>w. let w1 = clear_at a w
                   in (None, if persist then save_at a w1 else w1))\<rparr>"

definition memo :: "env \<Rightarrow> 'p producer \<Rightarrow> 'a memo_options_scheme \<Rightarrow> 'p module \<Rightarrow> 'p cached \<times> 'p module" where
  "memo e fn options m =
     (if \<not> ASTRO_CACHE_ENABLED e then (passthrough fn, m)
      else
        let persist = (opt_persist options \<noteq> Some False);
            a = allocated (world m);
            flatCache = (if persist
                         then FlatCache_load (memo_FlatCache e options) (files (world m))
                         else memo_FlatCache e options);
            cached = memo_cached a persist fn
        in (cached,
            m\<lparr>caches := caches m @ [clear cached],
              world := (world m)\<lparr>stores := (stores (world m))(a := flatCache),
                                 allocated := a + 1\<rparr>\<rparr>))"

text \<open>
  \<^verbatim>\<open>export function clearAllCaches(): void {
    for (const cache of caches) { cache.clear(); }
  }\<close>
  An exception of a \<open>clear\<close> leaves the loop and the function.
\<close>

fun clear_each :: "'w Clearable list \<Rightarrow> 'w \<Rightarrow> error option \<times> 'w" where
  "clear_each [] w = (None, w)"
| "clear_each (cache # rest) w =
     (case cache w of
        (Some err, w') \<Rightarrow> (Some err, w')
      | (None, w') \<Rightarrow> clear_each rest w')"

definition clearAllCaches :: "'p module \<Rightarrow> error option \<times> 'p module" where
  "clearAllCaches m = (let (r, w) = clear_each (caches m) (world m) in (r, m\<lparr>world := w\<rparr>))"

section \<open>Observing a wrapped function\<close>

text \<open>A producer that counts its own invocations, as the tests of the repository do
  (\<^verbatim>\<open>let calls = 0; const fn = async () => ++calls\<close>), and a sequence of awaited calls.\<close>

definition counting :: "'p producer \<Rightarrow> (nat \<times> 'p) producer" where
  "counting fn args s = (let (r, p) = fn args (snd s) in (r, (Suc (fst s), p)))"

definition invocations :: "(nat \<times> 'p) world \<Rightarrow> nat" where
  "invocations w = fst (producers w)"

fun run :: "'p cached \<Rightarrow> (jsval list \<times> int) list \<Rightarrow> 'p world \<Rightarrow> (error + jsval) list \<times> 'p world" where
  "run c [] w = ([], w)"
| "run c ((args, now) # rest) w =
     (let (r, w1) = invoke c args now w;
          (rs, w2) = run c rest w1
      in (r # rs, w2))"

text \<open>A sequence of \<open>swr\<close> and \<open>memo\<close> calls on the module, in order, each with a
  producer that is counted.\<close>

datatype 'p registration = Swr "'p producer" options | Memo "'p producer" memo_options

fun producer_of :: "'p registration \<Rightarrow> 'p producer" where
  "producer_of (Swr fn options) = fn"
| "producer_of (Memo fn options) = fn"

fun register ::
  "env \<Rightarrow> 'p registration \<Rightarrow> (nat \<times> 'p) module \<Rightarrow> (nat \<times> 'p) cached \<times> (nat \<times> 'p) module" where
  "register e (Swr fn options) m = swr e (counting fn) options m"
| "register e (Memo fn options) m = memo e (counting fn) options m"

fun register_all ::
  "env \<Rightarrow> 'p registration list \<Rightarrow> (nat \<times> 'p) module
     \<Rightarrow> (nat \<times> 'p) cached list \<times> (nat \<times> 'p) module" where
  "register_all e [] m = ([], m)"
| "register_all e (r # rs) m =
     (let (c, m1) = register e r m;
          (cs, m2) = register_all e rs m1
      in (c # cs, m2))"

text \<open>What \<open>register\<close> returns when caching is enabled and \<open>a\<close> objects exist, and the
  \<open>clear\<close> methods that a sequence of registrations appends to \<open>caches\<close>.\<close>

fun instance_at :: "env \<Rightarrow> nat \<Rightarrow> 'p registration \<Rightarrow> (nat \<times> 'p) cached" where
  "instance_at e a (Swr fn options) = swr_cached e a (counting fn)"
| "instance_at e a (Memo fn options) =
     memo_cached a (opt_persist options \<noteq> Some False) (counting fn)"

fun instances_from :: "env \<Rightarrow> nat \<Rightarrow> 'p registration list \<Rightarrow> (nat \<times> 'p) cached list" where
  "instances_from e a [] = []"
| "instances_from e a (r # rs) = instance_at e a r # instances_from e (Suc a) rs"

section \<open>JSON-representable values and deep equality\<close>




text \<open>
  What can follow a value in a text: nothing, a comma or a closing bracket. A value is
  determined by its text when no other JSON-representable value has a text that agrees
  with it up to such a point.
\<close>

definition ends_value :: "string \<Rightarrow> bool" where
  "ends_value r = (r = [] \<or> hd r \<in> set '',]}'')"


section \<open>Values and timestamps in an SWR store\<close>

text \<open>
  The keys that \<open>deriveKey\<close> returns end with a closing bracket or are \<^verbatim>\<open>_\<close>. The items
  of a store are paired when they are, from the most recently used on, the timestamp of a
  derived key and right after it the value of that key, stored at the same time, each
  key once.
\<close>

definition derived :: "string \<Rightarrow> bool" where
  "derived k = (k = ''_'' \<or> (k \<noteq> [] \<and> last k = CHR '']''))"

fun paired :: "item list \<Rightarrow> bool" where
  "paired [] = True"
| "paired [x] = False"
| "paired (s # x # rest) =
     (fst s = timeKey (fst x) \<and> derived (fst x) \<and> snd (snd s) = snd (snd x) \<and>
      fst x \<notin> fst ` set rest \<and> fst s \<notin> fst ` set rest \<and> paired rest)"

text \<open>Whether a value is cyclic: whether it holds a reference to an object around it.\<close>

fun cyclic :: "jsval \<Rightarrow> bool" where
  "cyclic (JArray xs) = (\<exists>x \<in> set xs. cyclic x)"
| "cyclic (JObject ps) = (\<exists>p \<in> set ps. cyclic (snd p))"
| "cyclic (JAncestor k) = True"
| "cyclic v = False"

section \<open>Fixtures\<close>

text \<open>The configuration of the repository's tests, a process that has created no cache
  yet, and the producers of the tests.\<close>

definition test_env :: "bool \<Rightarrow> env" where
  "test_env enabled =
     \<lparr>ASTRO_CACHE_DIR = ''/tmp/cache-test'',
      ASTRO_CACHE_ENABLED = enabled,
      ASTRO_CACHE_MIN_TIME_TO_STALE = 1000 * 60 * 30,
      ASTRO_CACHE_MAX_TIME_TO_LIVE = 1000 * 60 * 60 * 24 * 7\<rparr>"

definition empty_world :: "'p \<Rightarrow> 'p world" where
  "empty_world p =
     \<lparr>stores = (\<lambda>a. \<lparr>cacheId = [], cacheDir = [], ttl = 0, lruSize = 0, items = []\<rparr>),
      allocated = 0,
      files = (\<lambda>path. None),
      producers = p\<rparr>"

definition initial :: "'p \<Rightarrow> 'p module" where
  "initial p = \<lparr>caches = [], world = empty_world p\<rparr>"

text \<open>\<^verbatim>\<open>async () => v\<close>\<close>

definition resolves_to :: "jsval \<Rightarrow> 'p producer" where
  "resolves_to v args p = (Inr v, p)"

text \<open>\<^verbatim>\<open>let version = 1; const fn = async () => ({ version: version++ })\<close>\<close>

definition versioned :: "int producer" where
  "versioned args version = (Inr (JObject [(''version'', JNum version)]), version + 1)"

text \<open>The options of the README's examples.\<close>

definition users_options :: "int option \<Rightarrow> options" where
  "users_options n = \<lparr>opt_name = ''users'', opt_max = n\<rparr>"

definition config_options :: memo_options where
  "config_options = \<lparr>opt_name = ''config'', opt_max = None, opt_ttl = None, opt_persist = None\<rparr>"

text \<open>A process with one \<open>memo\<close> cache of a producer that resolves to \<open>v\<close>, and its
  state after one call without arguments at time 0.\<close>

definition memo_of :: "jsval \<Rightarrow> (nat \<times> unit) cached \<times> (nat \<times> unit) module" where
  "memo_of v = memo (test_env True) (counting (resolves_to v)) config_options (initial (0, ()))"

definition called_once :: "jsval \<Rightarrow> (nat \<times> unit) world" where
  "called_once v = snd (invoke (fst (memo_of v)) [] 0 (world (snd (memo_of v))))"

text \<open>The process of the test \<^verbatim>\<open>clearAllCaches\<close>: an \<open>swr\<close> cache and a \<open>memo\<close> cache of
  the versioned producer, and the state after one call of the second at time 0.\<close>

definition two_caches :: "(nat \<times> int) cached list \<times> (nat \<times> int) module" where
  "two_caches =
     register_all (test_env True)
       [Swr versioned (users_options None), Memo versioned config_options] (initial (0, 1))"

definition second_called :: "(nat \<times> int) world" where
  "second_called = snd (invoke (fst two_caches ! 1) [] 0 (world (snd two_caches)))"



section \<open>Unfolding the model\<close>

lemmas model_defs =
  memo_def memo_cached_def memo_FlatCache_def swr_def swr_cached_def swr_FlatCache_def
  swr_storage_def createStaleWhileRevalidateCache_def classify_def persist_value_def timeKey_def
  get_at_def set_at_def save_at_def clear_at_def removeKey_at_def call_def counting_def
  invocations_def FlatCache_get_def FlatCache_set_def FlatCache_clear_def FlatCache_load_def
  FlatCache_save_def FlatCache_removeKey_def cacheFilePath_def dropped_def without_def evict_def
  nullish_def passthrough_def FLAT_CACHE_TTL_def Let_def

lemmas fixture_defs =
  test_env_def empty_world_def initial_def resolves_to_def versioned_def users_options_def
  config_options_def memo_of_def called_once_def two_caches_def second_called_def

lemma deriveKey_Nil: "deriveKey [] = Inr ''_''"
  by (simp add: deriveKey_def)

lemma test_env_enabled: "ASTRO_CACHE_ENABLED (test_env True)"
  by (simp add: test_env_def)

lemma test_env_disabled: "\<not> ASTRO_CACHE_ENABLED (test_env False)"
  by (simp add: test_env_def)

lemma swr_enabled:
  "ASTRO_CACHE_ENABLED e \<Longrightarrow> fst (swr e fn options m) = swr_cached e (allocated (world m)) fn"
  by (simp add: swr_def Let_def)

lemma memo_enabled:
  "ASTRO_CACHE_ENABLED e \<Longrightarrow>
   fst (memo e fn options m)
     = memo_cached (allocated (world m)) (opt_persist options \<noteq> Some False) fn"
  by (simp add: memo_def Let_def)

lemma swr_disabled: "\<not> ASTRO_CACHE_ENABLED e \<Longrightarrow> swr e fn options m = (passthrough fn, m)"
  by (simp add: swr_def)

lemma memo_disabled: "\<not> ASTRO_CACHE_ENABLED e \<Longrightarrow> memo e fn options m = (passthrough fn, m)"
  by (simp add: memo_def)

lemma invocations_call_counting:
  "invocations (snd (call (counting fn) args w)) = Suc (invocations w)"
  by (simp add: call_def counting_def invocations_def split: prod.splits)

lemma producers_get_at [simp]: "producers (snd (get_at a k now w)) = producers w"
  by (simp add: get_at_def split: prod.splits)

lemma producers_set_at [simp]: "producers (set_at a k v now w) = producers w"
  by (simp add: set_at_def)

lemma producers_save_at [simp]: "producers (save_at a w) = producers w"
  by (simp add: save_at_def)

lemma producers_clear_at [simp]: "producers (clear_at a w) = producers w"
  by (simp add: clear_at_def)

section \<open>The backstop of an SWR store\<close>

text \<open>
  C9: the \<open>FlatCache\<close> that \<open>swr\<close> creates has \<open>ttl\<close> exactly twice
  \<open>ASTRO_CACHE_MAX_TIME_TO_LIVE\<close>, and an entry old enough for the store to drop it is
  already classified as expired by the policy.
\<close>

theorem swr_ttl_backstop:
  assumes "ASTRO_CACHE_ENABLED e"
  shows "ttl (stores (world (snd (swr e fn options m))) (allocated (world m)))
           = 2 * ASTRO_CACHE_MAX_TIME_TO_LIVE e
       \<and> (\<forall>v storedAt now.
            v \<noteq> JNull \<and> v \<noteq> JUndefined \<and>
            dropped (ttl (stores (world (snd (swr e fn options m))) (allocated (world m))))
                    (now - storedAt)
            \<longrightarrow> classify (ASTRO_CACHE_MIN_TIME_TO_STALE e) (ASTRO_CACHE_MAX_TIME_TO_LIVE e)
                  v (JNum storedAt) now = Expired)"
  using assms
  by (auto simp add: swr_def Let_def FlatCache_load_def swr_FlatCache_def FLAT_CACHE_TTL_def
        dropped_def classify_def split: option.splits)

theorem swr_ttl_backstop_witness:
  "ASTRO_CACHE_ENABLED (test_env True) \<and>
   ttl (stores (world (snd (swr (test_env True) versioned (users_options None)
                              (initial 1)))) 0) = 1209600000 \<and>
   dropped 1209600000 (1209600001 - 0) \<and>
   classify (ASTRO_CACHE_MIN_TIME_TO_STALE (test_env True))
            (ASTRO_CACHE_MAX_TIME_TO_LIVE (test_env True))
            (JStr ''a'') (JNum 0) 1209600001 = Expired"
proof -
  have h: "ASTRO_CACHE_ENABLED (test_env True)" by (simp add: test_env_def)
  have t: "ASTRO_CACHE_MAX_TIME_TO_LIVE (test_env True) = 604800000" by (simp add: test_env_def)
  have d: "dropped 1209600000 (1209600001 - 0)" by (simp add: dropped_def)
  from swr_ttl_backstop [OF h, of versioned "users_options None" "initial 1"]
  show ?thesis
    using h d by (simp add: t initial_def empty_world_def)
qed

section \<open>Caching disabled\<close>

lemma invocations_passthrough_run:
  "invocations (snd (run (passthrough (counting fn)) cs w)) = invocations w + length cs"
proof (induction cs arbitrary: w)
  case Nil
  show ?case by simp
next
  case (Cons c cs)
  obtain args now where c: "c = (args, now)" by (cases c)
  show ?case
    using Cons.IH [of "snd (call (counting fn) args w)"]
    by (simp add: c passthrough_def invocations_call_counting case_prod_beta)
qed

text \<open>
  C7: with caching disabled, the function that \<open>swr\<close> or \<open>memo\<close> returns calls the
  producer at every call and returns its result, so that N calls are N invocations;
  its \<open>clear\<close> returns without an exception and changes nothing.
\<close>

theorem disabled_passthrough:
  assumes "\<not> ASTRO_CACHE_ENABLED e"
  shows "invoke (fst (swr e (counting fn) so m)) args now w = call (counting fn) args w
       \<and> invoke (fst (memo e (counting fn) mo m)) args now w = call (counting fn) args w
       \<and> invocations (snd (run (fst (swr e (counting fn) so m)) cs w))
           = invocations w + length cs
       \<and> invocations (snd (run (fst (memo e (counting fn) mo m)) cs w))
           = invocations w + length cs
       \<and> clear (fst (swr e (counting fn) so m)) w = (None, w)
       \<and> clear (fst (memo e (counting fn) mo m)) w = (None, w)"
  using assms
  by (simp add: swr_disabled memo_disabled invocations_passthrough_run)
     (simp add: passthrough_def)

theorem disabled_passthrough_witness:
  "\<not> ASTRO_CACHE_ENABLED (test_env False) \<and>
   fst (run (fst (swr (test_env False) (counting versioned) (users_options None) (initial (0, 1))))
          [([], 0), ([], 0)] (empty_world (0, 1)))
     = [Inr (JObject [(''version'', JNum 1)]), Inr (JObject [(''version'', JNum 2)])] \<and>
   invocations (snd (run (fst (swr (test_env False) (counting versioned) (users_options None)
                                 (initial (0, 1))))
                       [([], 0), ([], 0)] (empty_world (0, 1)))) = 2 \<and>
   invocations (snd (run (fst (memo (test_env False) (counting versioned) config_options
                                 (initial (0, 1))))
                       [([], 0), ([], 0)] (empty_world (0, 1)))) = 2"
proof -
  have h: "\<not> ASTRO_CACHE_ENABLED (test_env False)" by (simp add: test_env_def)
  have i: "invocations (empty_world (0, 1)) = 0" by (simp add: invocations_def empty_world_def)
  note t = disabled_passthrough [OF h, where fn = versioned and so = "users_options None"
             and mo = config_options and m = "initial (0, 1)" and w = "empty_world (0, 1)"
             and cs = "[([], 0), ([], 0)]"]
  from t [of "[]" 0]
  have n: "invocations (snd (run (fst (swr (test_env False) (counting versioned)
              (users_options None) (initial (0, 1)))) [([], 0), ([], 0)] (empty_world (0, 1)))) = 2"
    and n': "invocations (snd (run (fst (memo (test_env False) (counting versioned)
              config_options (initial (0, 1)))) [([], 0), ([], 0)] (empty_world (0, 1)))) = 2"
    by (simp_all add: i del: run.simps)
  have r: "fst (run (fst (swr (test_env False) (counting versioned) (users_options None)
                            (initial (0, 1))))
                  [([], 0), ([], 0)] (empty_world (0, 1)))
             = [Inr (JObject [(''version'', JNum 1)]), Inr (JObject [(''version'', JNum 2)])]"
    by (simp add: swr_def h passthrough_def call_def counting_def versioned_def empty_world_def
          case_prod_beta)
  from h r n n' show ?thesis by simp
qed

section \<open>Hits of \<open>memo\<close>\<close>

lemma memo_hit:
  assumes "deriveKey args = Inr key" and "fst (get_at a key now w) \<noteq> JUndefined"
  shows "invoke (memo_cached a persist fn) args now w
           = (Inr (fst (get_at a key now w)), snd (get_at a key now w))"
  using assms by (simp add: memo_cached_def case_prod_beta)

lemma memo_miss:
  assumes "deriveKey args = Inr key" and "fst (get_at a key now w) = JUndefined"
  shows "invoke (memo_cached a persist fn) args now w
           = (case call fn args (snd (get_at a key now w)) of
                (Inl err, w2) \<Rightarrow> (Inl err, w2)
              | (Inr v, w2) \<Rightarrow>
                  (Inr v, if persist then save_at a (set_at a key v now w2)
                          else set_at a key v now w2))"
  using assms by (simp add: memo_cached_def Let_def case_prod_beta split: sum.splits)

text \<open>
  C4: when the store of a \<open>memo\<close> cache holds an empty string, zero, \<open>false\<close> or \<open>null\<close>
  under the key of the arguments, the call returns that value and the producer is not
  invoked; when the store holds nothing under the key, the producer is invoked.
\<close>

theorem memo_falsy_hit:
  assumes "ASTRO_CACHE_ENABLED e"
      and "deriveKey args = Inr key"
  shows "(v \<in> {JStr [], JNum 0, JBool False, JNull} \<and>
          fst (get_at (allocated (world m)) key now w) = v \<longrightarrow>
            fst (invoke (fst (memo e (counting fn) options m)) args now w) = Inr v \<and>
            invocations (snd (invoke (fst (memo e (counting fn) options m)) args now w))
              = invocations w)
       \<and> (fst (get_at (allocated (world m)) key now w) = JUndefined \<longrightarrow>
            invocations (snd (invoke (fst (memo e (counting fn) options m)) args now w))
              = Suc (invocations w))"
proof (intro conjI impI)
  assume h: "v \<in> {JStr [], JNum 0, JBool False, JNull} \<and>
          fst (get_at (allocated (world m)) key now w) = v"
  then have "fst (get_at (allocated (world m)) key now w) \<noteq> JUndefined" by auto
  from memo_hit [OF assms(2) this] h
  show "fst (invoke (fst (memo e (counting fn) options m)) args now w) = Inr v"
    and "invocations (snd (invoke (fst (memo e (counting fn) options m)) args now w))
              = invocations w"
    by (simp_all add: memo_enabled [OF assms(1)] invocations_def)
next
  assume "fst (get_at (allocated (world m)) key now w) = JUndefined"
  from memo_miss [OF assms(2) this]
  show "invocations (snd (invoke (fst (memo e (counting fn) options m)) args now w))
              = Suc (invocations w)"
    using invocations_call_counting [of fn args "snd (get_at (allocated (world m)) key now w)"]
    by (auto simp add: memo_enabled [OF assms(1)] invocations_def split: prod.splits sum.splits)
qed

theorem memo_falsy_hit_witness:
  "ASTRO_CACHE_ENABLED (test_env True) \<and> deriveKey [] = Inr ''_'' \<and>
   JNum 0 \<in> {JStr [], JNum 0, JBool False, JNull} \<and>
   fst (get_at 0 ''_'' 5 (called_once (JNum 0))) = JNum 0 \<and>
   fst (invoke (fst (memo_of (JNum 0))) [] 5 (called_once (JNum 0))) = Inr (JNum 0) \<and>
   invocations (snd (invoke (fst (memo_of (JNum 0))) [] 5 (called_once (JNum 0)))) = 1 \<and>
   fst (get_at 0 ''_'' 0 (world (snd (memo_of (JNum 0))))) = JUndefined \<and>
   invocations (called_once (JNum 0)) = 1"
proof -
  have e: "ASTRO_CACHE_ENABLED (test_env True)" by (simp add: test_env_def)
  have k: "deriveKey [] = Inr ''_''" by (simp add: deriveKey_def)
  have a: "allocated (world (initial (0::nat, ()))) = 0" by (simp add: fixture_defs)
  have g: "fst (get_at 0 ''_'' 5 (called_once (JNum 0))) = JNum 0"
    by (simp add: fixture_defs model_defs deriveKey_def)
  have i: "invocations (called_once (JNum 0)) = 1"
    by (simp add: fixture_defs model_defs deriveKey_def)
  have u: "fst (get_at 0 ''_'' 0 (world (snd (memo_of (JNum 0))))) = JUndefined"
    by (simp add: fixture_defs model_defs)
  have z: "invocations (world (snd (memo_of (JNum 0)))) = 0"
    by (simp add: fixture_defs model_defs)
  from memo_falsy_hit [OF e k, of "JNum 0" "initial (0, ())" 5 "called_once (JNum 0)"
         "resolves_to (JNum 0)" config_options]
  have hit: "fst (invoke (fst (memo_of (JNum 0))) [] 5 (called_once (JNum 0))) = Inr (JNum 0)"
    and same: "invocations (snd (invoke (fst (memo_of (JNum 0))) [] 5 (called_once (JNum 0)))) = 1"
    using g i by (simp_all add: a memo_of_def)
  from memo_falsy_hit [OF e k, of _ "initial (0, ())" 0 "world (snd (memo_of (JNum 0)))"
         "resolves_to (JNum 0)" config_options]
  have "invocations (called_once (JNum 0)) = 1"
    using u z by (simp add: a memo_of_def called_once_def)
  with e k g hit same u show ?thesis by simp
qed

section \<open>A producer that resolves to \<open>undefined\<close>\<close>

lemma FlatCache_get_set_undefined:
  "fst (FlatCache_get (FlatCache_set fc k JUndefined t) k now) = JUndefined"
  by (simp add: FlatCache_get_def FlatCache_set_def evict_def take_Cons' )

lemma stores_call [simp]: "stores (snd (call fn args w)) = stores w"
  by (simp add: call_def case_prod_beta)

lemma fst_call_counting: "fst (call (counting fn) args w) = fst (fn args (snd (producers w)))"
  by (simp add: call_def counting_def case_prod_beta)

lemma fst_get_at: "fst (get_at a k now w) = fst (FlatCache_get (stores w a) k now)"
  by (simp add: get_at_def case_prod_beta)

lemma stores_set_at: "stores (set_at a k v now w) a = FlatCache_set (stores w a) k v now"
  by (simp add: set_at_def)

lemma stores_save_at [simp]: "stores (save_at a w) = stores w"
  by (simp add: save_at_def)

lemma memo_undefined_step:
  assumes k: "deriveKey args = Inr key"
      and u: "\<forall>p. fst (fn args p) = Inr JUndefined"
      and a: "\<forall>now. fst (get_at a key now w) = JUndefined"
  shows "fst (invoke (memo_cached a persist (counting fn)) args t w) = Inr JUndefined"
    and "invocations (snd (invoke (memo_cached a persist (counting fn)) args t w))
           = Suc (invocations w)"
    and "\<forall>now. fst (get_at a key now (snd (invoke (memo_cached a persist (counting fn)) args t w)))
           = JUndefined"
proof -
  let ?w1 = "snd (get_at a key t w)"
  have f: "fst (call (counting fn) args ?w1) = Inr JUndefined"
    using u by (simp add: fst_call_counting)
  have i: "invocations (snd (call (counting fn) args ?w1)) = Suc (invocations w)"
    by (simp add: invocations_call_counting) (simp add: invocations_def)
  note m = memo_miss [OF k, of a t w persist "counting fn"]
  show "fst (invoke (memo_cached a persist (counting fn)) args t w) = Inr JUndefined"
    using a f by (simp add: m case_prod_beta split: sum.splits)
  show "invocations (snd (invoke (memo_cached a persist (counting fn)) args t w))
           = Suc (invocations w)"
    using a f i by (simp add: m case_prod_beta invocations_def split: sum.splits)
  show "\<forall>now. fst (get_at a key now (snd (invoke (memo_cached a persist (counting fn)) args t w)))
           = JUndefined"
    using a f
    by (simp add: m case_prod_beta fst_get_at stores_set_at FlatCache_get_set_undefined
          split: sum.splits)
qed

lemma memo_undefined_run:
  assumes k: "deriveKey args = Inr key"
      and u: "\<forall>p. fst (fn args p) = Inr JUndefined"
  shows "\<forall>now. fst (get_at a key now w) = JUndefined \<Longrightarrow>
         fst (run (memo_cached a persist (counting fn)) (map (\<lambda>now. (args, now)) ts) w)
           = replicate (length ts) (Inr JUndefined) \<and>
         invocations (snd (run (memo_cached a persist (counting fn))
                             (map (\<lambda>now. (args, now)) ts) w))
           = invocations w + length ts"
proof (induction ts arbitrary: w)
  case Nil
  show ?case by simp
next
  case (Cons t ts)
  note s = memo_undefined_step [where fn = fn and args = args and persist = persist and t = t, OF k u Cons.prems]
  from Cons.IH [OF s(3)] s(1) s(2) show ?case
    by (simp add: case_prod_beta)
qed

text \<open>
  C10: a \<open>memo\<close> cache whose producer resolves to \<open>undefined\<close> for the arguments, and
  whose store holds nothing under their key, invokes the producer at every call with
  these arguments: after N calls there are N invocations, each returning \<open>undefined\<close>.
\<close>

theorem memo_undefined_never_cached:
  assumes "ASTRO_CACHE_ENABLED e"
      and "deriveKey args = Inr key"
      and "\<forall>p. fst (fn args p) = Inr JUndefined"
      and "\<forall>now. fst (get_at (allocated (world m)) key now w) = JUndefined"
  shows "fst (run (fst (memo e (counting fn) options m)) (map (\<lambda>now. (args, now)) ts) w)
           = replicate (length ts) (Inr JUndefined)
       \<and> invocations (snd (run (fst (memo e (counting fn) options m))
                              (map (\<lambda>now. (args, now)) ts) w))
           = invocations w + length ts"
  using memo_undefined_run [where fn = fn and args = args, OF assms(2,3,4)] by (simp add: memo_enabled [OF assms(1)])

theorem memo_undefined_never_cached_witness:
  "ASTRO_CACHE_ENABLED (test_env True) \<and> deriveKey [] = Inr ''_'' \<and>
   (\<forall>p. fst (resolves_to JUndefined [] (p::unit)) = Inr JUndefined) \<and>
   (\<forall>now. fst (get_at 0 ''_'' now (world (snd (memo_of JUndefined)))) = JUndefined) \<and>
   fst (run (fst (memo_of JUndefined)) [([], 0), ([], 1), ([], 2)] (world (snd (memo_of JUndefined))))
     = [Inr JUndefined, Inr JUndefined, Inr JUndefined] \<and>
   invocations (snd (run (fst (memo_of JUndefined)) [([], 0), ([], 1), ([], 2)]
                       (world (snd (memo_of JUndefined))))) = 3"
proof -
  have e: "ASTRO_CACHE_ENABLED (test_env True)" by (simp add: test_env_def)
  have k: "deriveKey [] = Inr ''_''" by (simp add: deriveKey_def)
  have u: "\<forall>p. fst (resolves_to JUndefined [] (p::unit)) = Inr JUndefined"
    by (simp add: resolves_to_def)
  have a: "allocated (world (initial (0::nat, ()))) = 0" by (simp add: fixture_defs)
  have g: "\<forall>now. fst (get_at (allocated (world (initial (0::nat, ())))) ''_'' now
                    (world (snd (memo_of JUndefined)))) = JUndefined"
    by (simp add: fixture_defs model_defs)
  have z: "invocations (world (snd (memo_of JUndefined))) = 0"
    by (simp add: fixture_defs model_defs)
  from memo_undefined_never_cached [where fn = "resolves_to JUndefined" and args = "[]"
         and options = config_options and ts = "[0, 1, 2]", OF e k u g]
  show ?thesis
    using e k u g z by (simp add: a memo_of_def del: run.simps)
qed

section \<open>Clearing\<close>

lemma get_at_empty:
  "items (stores w a) = [] \<Longrightarrow> get_at a k now w = (JUndefined, w)"
  by (simp add: get_at_def FlatCache_get_def)

lemma memo_after_empty:
  assumes "deriveKey args = Inr key" and "items (stores w a) = []"
  shows "fst (invoke (memo_cached a persist (counting fn)) args now w)
           = fst (fn args (snd (producers w)))"
    and "invocations (snd (invoke (memo_cached a persist (counting fn)) args now w))
           = Suc (invocations w)"
proof -
  have g: "get_at a key now w = (JUndefined, w)" using assms(2) by (rule get_at_empty)
  note m = memo_miss [OF assms(1), of a now w persist "counting fn"]
  show "fst (invoke (memo_cached a persist (counting fn)) args now w)
           = fst (fn args (snd (producers w)))"
    using fst_call_counting [of fn args w]
    by (simp add: m g case_prod_beta split: sum.splits)
  show "invocations (snd (invoke (memo_cached a persist (counting fn)) args now w))
           = Suc (invocations w)"
    using invocations_call_counting [of fn args w]
    by (simp add: m g case_prod_beta invocations_def split: sum.splits)
qed

lemma swr_after_empty:
  assumes "deriveKey args = Inr key" and "items (stores w a) = []"
  shows "fst (invoke (swr_cached e a (counting fn)) args now w)
           = fst (fn args (snd (producers w)))"
    and "invocations (snd (invoke (swr_cached e a (counting fn)) args now w))
           = Suc (invocations w)"
proof -
  have g: "\<And>k. get_at a k now w = (JUndefined, w)" using assms(2) by (rule get_at_empty)
  have i: "invoke (swr_cached e a (counting fn)) args now w
             = (case call (counting fn) args w of
                  (Inl err, w3) \<Rightarrow> (Inl err, w3)
                | (Inr v, w3) \<Rightarrow> (Inr v, persist_value (swr_storage a) key v now w3))"
    by (simp add: swr_cached_def createStaleWhileRevalidateCache_def assms(1) swr_storage_def g
          classify_def Let_def case_prod_beta split: sum.splits)
  have p: "\<And>v w3. producers (persist_value (swr_storage a) key v now w3) = producers w3"
    by (simp add: persist_value_def swr_storage_def)
  show "fst (invoke (swr_cached e a (counting fn)) args now w)
           = fst (fn args (snd (producers w)))"
    using fst_call_counting [of fn args w]
    by (simp add: i case_prod_beta split: sum.splits)
  show "invocations (snd (invoke (swr_cached e a (counting fn)) args now w))
           = Suc (invocations w)"
    using invocations_call_counting [of fn args w]
    by (simp add: i p case_prod_beta invocations_def split: sum.splits)
qed

lemma instance_after_empty:
  assumes "deriveKey args = Inr key" and "items (stores w a) = []"
  shows "fst (invoke (instance_at e a r) args now w)
           = fst (producer_of r args (snd (producers w)))
       \<and> invocations (snd (invoke (instance_at e a r) args now w)) = Suc (invocations w)"
  by (cases r) (simp_all add: memo_after_empty [OF assms] swr_after_empty [OF assms])

lemma clear_instance:
  "fst (clear (instance_at e a r) w) = None"
  "producers (snd (clear (instance_at e a r) w)) = producers w"
  "items (stores (snd (clear (instance_at e a r) w)) a) = []"
  "b \<noteq> a \<Longrightarrow> stores (snd (clear (instance_at e a r) w)) b = stores w b"
  by (cases r; simp add: swr_cached_def memo_cached_def clear_at_def save_at_def FlatCache_clear_def
        Let_def)+

lemma clear_each_instances:
  "fst (clear_each (map clear (instances_from e a rs)) w) = None \<and>
   producers (snd (clear_each (map clear (instances_from e a rs)) w)) = producers w \<and>
   (\<forall>b. items (stores (snd (clear_each (map clear (instances_from e a rs)) w)) b)
          = (if a \<le> b \<and> b < a + length rs then [] else items (stores w b)))"
proof (induction rs arbitrary: a w)
  case Nil
  show ?case by auto
next
  case (Cons r rs)
  let ?w1 = "snd (clear (instance_at e a r) w)"
  have s: "clear_each (map clear (instances_from e a (r # rs))) w
             = clear_each (map clear (instances_from e (Suc a) rs)) ?w1"
    using clear_instance(1) [where e = e and a = a and r = r and w = w]
    by (cases "clear (instance_at e a r) w") simp
  have o: "\<And>b. items (stores ?w1 b) = (if b = a then [] else items (stores w b))"
    using clear_instance(3,4) [where e = e and a = a and r = r and w = w] by simp
  show ?case
    unfolding s using Cons.IH [of "Suc a" ?w1]
    by (auto simp add: o clear_instance(2))
qed

lemma register_enabled:
  "ASTRO_CACHE_ENABLED e \<Longrightarrow> fst (register e r m) = instance_at e (allocated (world m)) r"
  by (cases r) (simp_all add: swr_enabled memo_enabled)

lemma register_module:
  "ASTRO_CACHE_ENABLED e \<Longrightarrow>
   caches (snd (register e r m)) = caches m @ [clear (instance_at e (allocated (world m)) r)] \<and>
   allocated (world (snd (register e r m))) = Suc (allocated (world m))"
  by (cases r) (simp_all add: swr_def memo_def Let_def)

lemma register_all_enabled:
  "ASTRO_CACHE_ENABLED e \<Longrightarrow>
   fst (register_all e rs m) = instances_from e (allocated (world m)) rs \<and>
   caches (snd (register_all e rs m))
     = caches m @ map clear (instances_from e (allocated (world m)) rs)"
proof (induction rs arbitrary: m)
  case Nil
  show ?case by simp
next
  case (Cons r rs)
  from Cons.IH [OF Cons.prems, of "snd (register e r m)"]
  show ?case
    by (simp add: case_prod_beta register_enabled [OF Cons.prems] register_module [OF Cons.prems])
qed

lemma instances_from_nth:
  "i < length rs \<Longrightarrow> instances_from e a rs ! i = instance_at e (a + i) (rs ! i)"
proof (induction rs arbitrary: a i)
  case Nil
  then show ?case by simp
next
  case (Cons r rs)
  then show ?case by (cases i) simp_all
qed

lemma length_instances_from [simp]: "length (instances_from e a rs) = length rs"
  by (induction rs arbitrary: a) simp_all

text \<open>
  C6: with caching enabled, after the \<open>clear\<close> of a \<open>memo\<close> or \<open>swr\<close> cache, and after a
  \<open>clearAllCaches\<close> that returns, for every cache registered since the module was loaded,
  the next call of the wrapped function, whatever the arguments that have a key, invokes
  the producer once and returns what the producer returns at that invocation. In the
  test of the repository the call after \<open>clearAllCaches\<close> returns version 2.
\<close>

theorem clear_forces_refetch:
  fixes mo :: memo_options and so :: options
  assumes "ASTRO_CACHE_ENABLED e"
      and "deriveKey args = Inr key"
  shows "fst (clear (fst (memo e (counting fn) mo m)) w) = None
       \<and> fst (invoke (fst (memo e (counting fn) mo m)) args now
                (snd (clear (fst (memo e (counting fn) mo m)) w)))
           = fst (fn args (snd (producers w)))
       \<and> invocations (snd (invoke (fst (memo e (counting fn) mo m)) args now
                              (snd (clear (fst (memo e (counting fn) mo m)) w))))
           = Suc (invocations w)
       \<and> fst (clear (fst (swr e (counting fn) so m)) w) = None
       \<and> fst (invoke (fst (swr e (counting fn) so m)) args now
                (snd (clear (fst (swr e (counting fn) so m)) w)))
           = fst (fn args (snd (producers w)))
       \<and> invocations (snd (invoke (fst (swr e (counting fn) so m)) args now
                              (snd (clear (fst (swr e (counting fn) so m)) w))))
           = Suc (invocations w)
       \<and> (caches m = [] \<and> i < length rs \<longrightarrow>
            fst (clearAllCaches ((snd (register_all e rs m))\<lparr>world := w\<rparr>)) = None
          \<and> fst (invoke (fst (register_all e rs m) ! i) args now
                   (world (snd (clearAllCaches ((snd (register_all e rs m))\<lparr>world := w\<rparr>)))))
              = fst (producer_of (rs ! i) args (snd (producers w)))
          \<and> invocations (snd (invoke (fst (register_all e rs m) ! i) args now
                   (world (snd (clearAllCaches ((snd (register_all e rs m))\<lparr>world := w\<rparr>))))))
              = Suc (invocations w))"
proof -
  let ?a = "allocated (world m)"
  let ?M = "instance_at e ?a (Memo fn mo)"
  let ?S = "instance_at e ?a (Swr fn so)"
  have M: "fst (memo e (counting fn) mo m) = ?M" by (simp add: memo_enabled [OF assms(1)])
  have S: "fst (swr e (counting fn) so m) = ?S" by (simp add: swr_enabled [OF assms(1)])
  have one: "\<And>r. fst (clear (instance_at e ?a r) w) = None
       \<and> fst (invoke (instance_at e ?a r) args now (snd (clear (instance_at e ?a r) w)))
           = fst (producer_of r args (snd (producers w)))
       \<and> invocations (snd (invoke (instance_at e ?a r) args now
                              (snd (clear (instance_at e ?a r) w))))
           = Suc (invocations w)"
    using instance_after_empty [OF assms(2) clear_instance(3)]
    by (simp add: clear_instance(1,2) invocations_def)
  have all: "caches m = [] \<and> i < length rs \<longrightarrow>
            fst (clearAllCaches ((snd (register_all e rs m))\<lparr>world := w\<rparr>)) = None
          \<and> fst (invoke (fst (register_all e rs m) ! i) args now
                   (world (snd (clearAllCaches ((snd (register_all e rs m))\<lparr>world := w\<rparr>)))))
              = fst (producer_of (rs ! i) args (snd (producers w)))
          \<and> invocations (snd (invoke (fst (register_all e rs m) ! i) args now
                   (world (snd (clearAllCaches ((snd (register_all e rs m))\<lparr>world := w\<rparr>))))))
              = Suc (invocations w)"
  proof
    assume h: "caches m = [] \<and> i < length rs"
    let ?cs = "map clear (instances_from e ?a rs)"
    let ?w' = "snd (clear_each ?cs w)"
    note r = register_all_enabled [OF assms(1), of rs m]
    have c: "clearAllCaches ((snd (register_all e rs m))\<lparr>world := w\<rparr>)
               = (fst (clear_each ?cs w), (snd (register_all e rs m))\<lparr>world := ?w'\<rparr>)"
      using r h by (simp add: clearAllCaches_def case_prod_beta)
    note ce = clear_each_instances [of e ?a rs w]
    have emp: "items (stores ?w' (?a + i)) = []" using ce h by simp
    have p: "producers ?w' = producers w" using ce by simp
    have n: "fst (register_all e rs m) ! i = instance_at e (?a + i) (rs ! i)"
      using r h by (simp add: instances_from_nth)
    from instance_after_empty [OF assms(2) emp, of e "rs ! i" now] ce
    show "fst (clearAllCaches ((snd (register_all e rs m))\<lparr>world := w\<rparr>)) = None
          \<and> fst (invoke (fst (register_all e rs m) ! i) args now
                   (world (snd (clearAllCaches ((snd (register_all e rs m))\<lparr>world := w\<rparr>)))))
              = fst (producer_of (rs ! i) args (snd (producers w)))
          \<and> invocations (snd (invoke (fst (register_all e rs m) ! i) args now
                   (world (snd (clearAllCaches ((snd (register_all e rs m))\<lparr>world := w\<rparr>))))))
              = Suc (invocations w)"
      by (simp add: c n p invocations_def)
  qed
  from one [of "Memo fn mo"] one [of "Swr fn so"] all show ?thesis
    by (simp add: M S)
qed


theorem clear_forces_refetch_witness:
  "ASTRO_CACHE_ENABLED (test_env True) \<and> deriveKey [] = Inr ''_'' \<and>
   caches (initial (0::nat, 1::int)) = [] \<and>
   (1::nat) < length [Swr versioned (users_options None), Memo versioned config_options] \<and>
   fst (invoke (fst two_caches ! 1) [] 0 (world (snd two_caches)))
     = Inr (JObject [(''version'', JNum 1)]) \<and>
   fst (clearAllCaches ((snd two_caches)\<lparr>world := second_called\<rparr>)) = None \<and>
   fst (invoke (fst two_caches ! 1) [] 5
          (world (snd (clearAllCaches ((snd two_caches)\<lparr>world := second_called\<rparr>)))))
     = Inr (JObject [(''version'', JNum 2)]) \<and>
   invocations (snd (invoke (fst two_caches ! 1) [] 5
          (world (snd (clearAllCaches ((snd two_caches)\<lparr>world := second_called\<rparr>)))))) = 2"
proof -
  have e: "ASTRO_CACHE_ENABLED (test_env True)" by (simp add: test_env_def)
  have k: "deriveKey [] = Inr ''_''" by (simp add: deriveKey_def)
  have c: "caches (initial (0::nat, 1::int)) = []" by (simp add: initial_def)
  have l: "(1::nat) < length [Swr versioned (users_options None), Memo versioned config_options]"
    by simp
  have f: "fst (invoke (fst two_caches ! 1) [] 0 (world (snd two_caches)))
             = Inr (JObject [(''version'', JNum 1)])"
    by (simp add: fixture_defs model_defs deriveKey_def)
  have p: "producers second_called = (1, 2)"
    by (simp add: fixture_defs model_defs deriveKey_def)
  note t = clear_forces_refetch [OF e k, where m = "initial (0, 1)" and i = 1
         and rs = "[Swr versioned (users_options None), Memo versioned config_options]"
         and w = second_called and now = 5 and fn = versioned]
  have r: "fst (clearAllCaches ((snd two_caches)\<lparr>world := second_called\<rparr>)) = None
     \<and> fst (invoke (fst two_caches ! 1) [] 5
              (world (snd (clearAllCaches ((snd two_caches)\<lparr>world := second_called\<rparr>)))))
         = fst (producer_of
                  ([Swr versioned (users_options None), Memo versioned config_options] ! 1) []
                  (snd (producers second_called)))
     \<and> invocations (snd (invoke (fst two_caches ! 1) [] 5
              (world (snd (clearAllCaches ((snd two_caches)\<lparr>world := second_called\<rparr>))))))
         = Suc (invocations second_called)"
    unfolding two_caches_def using t c l by blast
  from r e k c l f show ?thesis
    by (simp add: p invocations_def versioned_def)
qed

section \<open>The registry\<close>





section \<open>The key of no arguments\<close>

lemma SerializeJSONProperty_JArray_cases:
  "(\<exists>e. SerializeJSONProperty (JArray xs) = Inl e) \<or>
   (\<exists>t. SerializeJSONProperty (JArray xs) = Inr (Some (CHR ''['' # t)))"
  by (simp split: sum.splits)

lemma deriveKey_nonempty:
  assumes "args \<noteq> []" and "deriveKey args = Inr s"
  shows "\<exists>t. s = CHR ''['' # t"
  using assms SerializeJSONProperty_JArray_cases [of args]
  by (auto simp add: deriveKey_def JSON_stringify_def)

lemma ttl_FlatCache_get [simp]: "ttl (snd (FlatCache_get fc k now)) = ttl fc"
  by (simp add: FlatCache_get_def split: option.splits)

lemma FlatCache_get_set_same:
  "\<not> dropped (ttl fc) (now - t) \<Longrightarrow> fst (FlatCache_get (FlatCache_set fc k v t) k now) = v"
  by (simp add: FlatCache_get_def FlatCache_set_def evict_def take_Cons')

lemma stores_get_at: "stores (snd (get_at a k now w)) a = snd (FlatCache_get (stores w a) k now)"
  by (simp add: get_at_def case_prod_beta)

lemma memo_twice:
  assumes k: "deriveKey args = Inr key"
      and a: "fst (get_at a key t1 w) = JUndefined"
      and v: "fst (fn args (snd (producers w))) = Inr v" "v \<noteq> JUndefined"
      and d: "\<not> dropped (ttl (stores w a)) (t2 - t1)"
  shows "fst (run (memo_cached a persist (counting fn)) [(args, t1), (args, t2)] w) = [Inr v, Inr v]"
    and "invocations (snd (run (memo_cached a persist (counting fn)) [(args, t1), (args, t2)] w))
           = Suc (invocations w)"
proof -
  let ?c = "memo_cached a persist (counting fn)"
  let ?w0 = "snd (get_at a key t1 w)"
  let ?w1 = "snd (invoke ?c args t1 w)"
  have f: "fst (call (counting fn) args ?w0) = Inr v"
    using v(1) by (simp add: fst_call_counting)
  note m = memo_miss [OF k a, of persist "counting fn"]
  have r1: "fst (invoke ?c args t1 w) = Inr v"
    using f by (simp add: m case_prod_beta split: sum.splits)
  have i1: "invocations ?w1 = Suc (invocations w)"
    using f invocations_call_counting [of fn args ?w0]
    by (simp add: m case_prod_beta invocations_def split: sum.splits)
  have s1: "stores ?w1 a = FlatCache_set (snd (FlatCache_get (stores w a) key t1)) key v t1"
    using f by (simp add: m case_prod_beta stores_set_at stores_get_at split: sum.splits)
  have g2: "fst (get_at a key t2 ?w1) = v"
    using d by (simp add: fst_get_at s1 FlatCache_get_set_same)
  note h = memo_hit [OF k, of a t2 ?w1 persist "counting fn"]
  have r2: "fst (invoke ?c args t2 ?w1) = Inr v"
    using g2 v(2) by (simp add: h)
  have i2: "invocations (snd (invoke ?c args t2 ?w1)) = invocations ?w1"
    using g2 v(2) by (simp add: h invocations_def)
  show "fst (run ?c [(args, t1), (args, t2)] w) = [Inr v, Inr v]"
    using r1 r2 by (simp add: case_prod_beta)
  show "invocations (snd (run ?c [(args, t1), (args, t2)] w)) = Suc (invocations w)"
    using i1 i2 by (simp add: case_prod_beta)
qed

text \<open>
  C5, as the code has it: the key of the empty argument list is \<^verbatim>\<open>_\<close>; no other argument
  list has that key; and when the store of a \<open>memo\<close> cache holds nothing under \<^verbatim>\<open>_\<close>, the
  producer resolves to a value other than \<open>undefined\<close> and the second call comes before
  the entry is older than \<open>ttl\<close>, two calls without arguments invoke the producer once and
  both return its value.
\<close>

theorem zero_argument_key:
  "deriveKey [] = Inr ''_''
   \<and> (args \<noteq> [] \<longrightarrow> deriveKey args \<noteq> Inr ''_'')
   \<and> (ASTRO_CACHE_ENABLED e \<and>
        fst (get_at (allocated (world m)) ''_'' t1 w) = JUndefined \<and>
        fst (fn [] (snd (producers w))) = Inr v \<and> v \<noteq> JUndefined \<and>
        \<not> dropped (ttl (stores w (allocated (world m)))) (t2 - t1) \<longrightarrow>
          fst (run (fst (memo e (counting fn) options m)) [([], t1), ([], t2)] w)
            = [Inr v, Inr v] \<and>
          invocations (snd (run (fst (memo e (counting fn) options m)) [([], t1), ([], t2)] w))
            = Suc (invocations w))"
proof (intro conjI impI)
  show "deriveKey [] = Inr ''_''" by (rule deriveKey_Nil)
next
  assume "args \<noteq> []"
  from deriveKey_nonempty [OF this] show "deriveKey args \<noteq> Inr ''_''" by auto
next
  assume h: "ASTRO_CACHE_ENABLED e \<and>
        fst (get_at (allocated (world m)) ''_'' t1 w) = JUndefined \<and>
        fst (fn [] (snd (producers w))) = Inr v \<and> v \<noteq> JUndefined \<and>
        \<not> dropped (ttl (stores w (allocated (world m)))) (t2 - t1)"
  then have e: "ASTRO_CACHE_ENABLED e"
    and a: "fst (get_at (allocated (world m)) ''_'' t1 w) = JUndefined"
    and v: "fst (fn [] (snd (producers w))) = Inr v" "v \<noteq> JUndefined"
    and d: "\<not> dropped (ttl (stores w (allocated (world m)))) (t2 - t1)"
    by simp_all
  note t = memo_twice [where fn = fn and args = "[]", OF deriveKey_Nil a v d]
  show "fst (run (fst (memo e (counting fn) options m)) [([], t1), ([], t2)] w) = [Inr v, Inr v]"
    using t(1) by (simp add: memo_enabled [OF e] del: run.simps)
  show "invocations (snd (run (fst (memo e (counting fn) options m)) [([], t1), ([], t2)] w))
            = Suc (invocations w)"
    using t(2) by (simp add: memo_enabled [OF e] del: run.simps)
qed

theorem zero_argument_key_witness:
  "[JStr ''_''] \<noteq> [] \<and> deriveKey [JStr ''_''] \<noteq> Inr ''_'' \<and>
   ASTRO_CACHE_ENABLED (test_env True) \<and>
   fst (get_at 0 ''_'' 0 (world (snd (memo_of (JNum 42))))) = JUndefined \<and>
   fst (resolves_to (JNum 42) [] ()) = Inr (JNum 42) \<and> JNum 42 \<noteq> JUndefined \<and>
   \<not> dropped (ttl (stores (world (snd (memo_of (JNum 42)))) 0)) (1000 - 0) \<and>
   fst (run (fst (memo_of (JNum 42))) [([], 0), ([], 1000)] (world (snd (memo_of (JNum 42)))))
     = [Inr (JNum 42), Inr (JNum 42)] \<and>
   invocations (snd (run (fst (memo_of (JNum 42))) [([], 0), ([], 1000)]
                       (world (snd (memo_of (JNum 42)))))) = 1"
proof -
  let ?w = "world (snd (memo_of (JNum 42)))"
  have n: "[JStr ''_''] \<noteq> []" by simp
  have e: "ASTRO_CACHE_ENABLED (test_env True)" by (simp add: test_env_def)
  have al: "allocated (world (initial (0::nat, ()))) = 0" by (simp add: fixture_defs)
  have a: "fst (get_at 0 ''_'' 0 ?w) = JUndefined"
    by (simp add: fixture_defs model_defs)
  have v: "fst (resolves_to (JNum 42) [] (snd (producers ?w))) = Inr (JNum 42)"
    "JNum 42 \<noteq> JUndefined" by (simp_all add: resolves_to_def)
  have d: "\<not> dropped (ttl (stores ?w 0)) (1000 - 0)"
    by (simp add: fixture_defs model_defs)
  have z: "invocations ?w = 0" by (simp add: fixture_defs model_defs)
  note t = zero_argument_key [where args = "[JStr ''_'']" and e = "test_env True"
      and m = "initial (0, ())" and ?t1.0 = 0 and ?t2.0 = 1000 and w = ?w
      and fn = "resolves_to (JNum 42)" and v = "JNum 42" and options = config_options]
  have k: "deriveKey [JStr ''_''] \<noteq> Inr ''_''" using t n by blast
  have r: "fst (run (fst (memo_of (JNum 42))) [([], 0), ([], 1000)] ?w)
             = [Inr (JNum 42), Inr (JNum 42)] \<and>
           invocations (snd (run (fst (memo_of (JNum 42))) [([], 0), ([], 1000)] ?w))
             = Suc (invocations ?w)"
    using t e a v d unfolding al memo_of_def [of "JNum 42"] by blast
  from n k e a v d r z show ?thesis by (simp add: resolves_to_def del: run.simps)
qed

text \<open>
  C5, as the specification has it, fails for a producer that resolves to \<open>undefined\<close>:
  two calls without arguments are two invocations.
\<close>

theorem zero_argument_twice_counterexample:
  "invocations (snd (run (fst (memo_of JUndefined)) [([], 0), ([], 0)]
                       (world (snd (memo_of JUndefined))))) = 2"
  by (simp add: fixture_defs model_defs deriveKey_def)

section \<open>Arguments that cannot be serialised\<close>

lemma collect_Inl: "collect rs = Inl e \<Longrightarrow> Inl e \<in> set rs"
  by (induction rs rule: collect.induct) (auto split: sum.splits)

lemma collect_has_Inl: "Inl e \<in> set rs \<Longrightarrow> \<exists>e'. collect rs = Inl e'"
  by (induction rs rule: collect.induct) (auto split: sum.splits)

lemma SerializeJSONProperty_error: "SerializeJSONProperty v = Inl e \<Longrightarrow> e = TypeError"
proof (induction v arbitrary: e)
  case (JArray xs)
  from JArray.prems have "collect (map SerializeJSONProperty xs) = Inl e"
    by (simp split: sum.splits)
  from collect_Inl [OF this] JArray.IH show ?case by auto
next
  case (JObject ps)
  from JObject.prems
  have "collect (map (\<lambda>(k, v). case SerializeJSONProperty v of
                                  Inl e \<Rightarrow> Inl e | Inr s \<Rightarrow> Inr (k, s)) ps) = Inl e"
    by (simp split: sum.splits)
  from collect_Inl [OF this]
  obtain k v where "(k, v) \<in> set ps" and "SerializeJSONProperty v = Inl e"
    by (auto split: sum.splits)
  with JObject.IH [of "(k, v)" v e] show ?case by simp
qed simp_all

lemma cyclic_TypeError: "cyclic v \<Longrightarrow> SerializeJSONProperty v = Inl TypeError"
proof (induction v)
  case (JArray xs)
  then obtain x where "x \<in> set xs" and "SerializeJSONProperty x = Inl TypeError" by auto
  then have "Inl TypeError \<in> set (map SerializeJSONProperty xs)" by force
  from collect_has_Inl [OF this]
  obtain e where e: "collect (map SerializeJSONProperty xs) = Inl e" by blast
  then have "SerializeJSONProperty (JArray xs) = Inl e" by simp
  with SerializeJSONProperty_error [of "JArray xs" e] show ?case by simp
next
  case (JObject ps)
  let ?f = "\<lambda>(k, v). case SerializeJSONProperty v of Inl e \<Rightarrow> Inl e | Inr s \<Rightarrow> Inr (k, s)"
  from JObject obtain k v where "(k, v) \<in> set ps" and "SerializeJSONProperty v = Inl TypeError"
    by fastforce
  then have "Inl TypeError \<in> set (map ?f ps)" by force
  from collect_has_Inl [OF this]
  obtain e where e: "collect (map ?f ps) = Inl e" by blast
  then have "SerializeJSONProperty (JObject ps) = Inl e" by simp
  with SerializeJSONProperty_error [of "JObject ps" e] show ?case by simp
qed simp_all

lemma deriveKey_cyclic:
  assumes "\<exists>x \<in> set args. cyclic x"
  shows "deriveKey args = Inl TypeError"
proof -
  from assms have "args \<noteq> []" and "cyclic (JArray args)" by auto
  with cyclic_TypeError [of "JArray args"] show ?thesis
    by (simp add: deriveKey_def JSON_stringify_def)
qed

lemma collect_map_sum:
  "(case collect rs of Inl e \<Rightarrow> Inl e | Inr ss \<Rightarrow> Inr (map f ss)) = collect (map (map_sum id f) rs)"
  by (induction rs rule: collect.induct) (auto split: sum.splits)

lemma SerializeJSONProperty_JArray_elements:
  assumes "map (\<lambda>x. map_sum id (\<lambda>s. case s of None \<Rightarrow> ''null'' | Some t \<Rightarrow> t)
                   (SerializeJSONProperty x)) xs
         = map (\<lambda>x. map_sum id (\<lambda>s. case s of None \<Rightarrow> ''null'' | Some t \<Rightarrow> t)
                   (SerializeJSONProperty x)) ys"
  shows "SerializeJSONProperty (JArray xs) = SerializeJSONProperty (JArray ys)"
proof -
  let ?f = "\<lambda>s. case s of None \<Rightarrow> ''null'' | Some t \<Rightarrow> t"
  have "\<And>zs. SerializeJSONProperty (JArray zs)
          = (case collect (map (map_sum id ?f) (map SerializeJSONProperty zs)) of
               Inl e \<Rightarrow> Inl e
             | Inr ts \<Rightarrow> Inr (Some (''['' @ join '','' ts @ '']'')))"
    unfolding collect_map_sum [symmetric] by (simp split: sum.splits)
  with assms show ?thesis by (simp add: comp_def)
qed

lemma deriveKey_coerced:
  assumes "v \<in> {JUndefined, JFunction, JSymbol, JNaN, JInfinity, JNegInfinity}"
  shows "deriveKey (xs @ v # ys) = deriveKey (xs @ JNull # ys)"
proof -
  have "SerializeJSONProperty (JArray (xs @ v # ys)) = SerializeJSONProperty (JArray (xs @ JNull # ys))"
    using assms by (intro SerializeJSONProperty_JArray_elements) auto
  then show ?thesis by (simp add: deriveKey_def JSON_stringify_def)
qed

text \<open>
  C2, as the code has it: for an argument list that holds a cyclic structure the key
  derivation throws \<open>TypeError\<close>, and the wrapped function of \<open>memo\<close> or \<open>swr\<close> passes it to
  the caller with the store and the producer untouched; an argument that is
  \<open>undefined\<close>, a function, a symbol, \<open>NaN\<close> or an infinity is written as \<^verbatim>\<open>null\<close>, so the
  list has the key of the list with \<open>null\<close> in that place.
\<close>

theorem key_derivation_failure:
  "((\<exists>x \<in> set args. cyclic x) \<longrightarrow>
      deriveKey args = Inl TypeError \<and>
      invoke (memo_cached a persist fn) args now w = (Inl TypeError, w) \<and>
      invoke (swr_cached e a fn) args now w = (Inl TypeError, w))
   \<and> (v \<in> {JUndefined, JFunction, JSymbol, JNaN, JInfinity, JNegInfinity} \<longrightarrow>
        deriveKey (xs @ v # ys) = deriveKey (xs @ JNull # ys))"
  by (simp add: deriveKey_cyclic deriveKey_coerced memo_cached_def swr_cached_def del: insert_iff)

theorem key_derivation_failure_witness:
  "(\<exists>x \<in> set [JObject [(''self'', JAncestor 0)]]. cyclic x) \<and>
   deriveKey [JObject [(''self'', JAncestor 0)]] = Inl TypeError \<and>
   invoke (fst (memo_of JNull)) [JObject [(''self'', JAncestor 0)]] 0 (world (snd (memo_of JNull)))
     = (Inl TypeError, world (snd (memo_of JNull))) \<and>
   JFunction \<in> {JUndefined, JFunction, JSymbol, JNaN, JInfinity, JNegInfinity} \<and>
   deriveKey ([JStr ''x''] @ JFunction # [JNum 1]) = deriveKey ([JStr ''x''] @ JNull # [JNum 1])"
proof -
  have c: "\<exists>x \<in> set [JObject [(''self'', JAncestor 0)]]. cyclic x" by simp
  have f: "JFunction \<in> {JUndefined, JFunction, JSymbol, JNaN, JInfinity, JNegInfinity}" by simp
  have m: "fst (memo_of JNull) = memo_cached 0 True (counting (resolves_to JNull))"
    by (simp add: memo_of_def memo_enabled [OF test_env_enabled] initial_def empty_world_def
          config_options_def)
  note t = key_derivation_failure [where args = "[JObject [(''self'', JAncestor 0)]]"
      and a = 0 and persist = True and fn = "counting (resolves_to JNull)" and now = 0
      and w = "world (snd (memo_of JNull))" and v = JFunction and xs = "[JStr ''x'']"
      and ys = "[JNum 1]"]
  from t c f show ?thesis unfolding m by blast
qed

text \<open>
  C2, as the specification has it, fails: a function as the only argument raises no
  error and gets the key of the different argument list \<open>[null]\<close>.
\<close>

theorem key_collision_counterexample:
  "deriveKey [JFunction] = Inr ''[null]'' \<and> deriveKey [JNull] = Inr ''[null]'' \<and>
   [JFunction] \<noteq> [JNull]"
  by (simp add: deriveKey_def JSON_stringify_def)

section \<open>The key of JSON-representable arguments\<close>

subsection \<open>Numbers\<close>














subsection \<open>Values that end at a delimiter\<close>




subsection \<open>Strings\<close>








subsection \<open>Arrays and objects\<close>





lemma ends_value_Cons [simp]:
  "ends_value (CHR '','' # r)" "ends_value (CHR '']'' # r)" "ends_value (CHR ''}'' # r)"
  "ends_value []"
  by (simp_all add: ends_value_def)








subsection \<open>The key\<close>








section \<open>Values and timestamps stay together\<close>

lemma timeKey_inj: "timeKey k = timeKey k' \<Longrightarrow> k = k'"
  by (simp add: timeKey_def)

lemma derived_not_timeKey: "derived k \<Longrightarrow> k \<noteq> timeKey k'"
  by (auto simp add: derived_def timeKey_def)

lemma without_absent: "k \<notin> fst ` set its \<Longrightarrow> without k its = its"
  by (induction its) (auto simp add: without_def)

lemma find_absent: "k \<notin> fst ` set its \<Longrightarrow> find (\<lambda>it. fst it = k) its = None"
  by (induction its) auto

lemma keys_without: "fst ` set (without k its) = fst ` set its - {k}"
  by (auto simp add: without_def)

lemma find_without: "a \<noteq> b \<Longrightarrow> find (\<lambda>it. fst it = a) (without b its) = find (\<lambda>it. fst it = a) its"
  by (induction its) (auto simp add: without_def)

lemma find_Some_key: "find (\<lambda>it. fst it = k) its = Some x \<Longrightarrow> fst x = k \<and> x \<in> set its"
  by (induction its) (auto split: if_splits)

lemma find_None_key: "find (\<lambda>it. fst it = k) its = None \<Longrightarrow> k \<notin> fst ` set its"
  by (induction its) (auto split: if_splits)

lemma pairedD:
  "paired (s # x # rest) \<Longrightarrow>
   fst s = timeKey (fst x) \<and> derived (fst x) \<and> snd (snd s) = snd (snd x) \<and>
   fst x \<notin> fst ` set rest \<and> fst s \<notin> fst ` set rest \<and> paired rest"
  unfolding paired.simps .

lemma paired_find_None:
  "paired its \<Longrightarrow> derived k \<Longrightarrow> find (\<lambda>it. fst it = k) its = None
   \<Longrightarrow> find (\<lambda>it. fst it = timeKey k) its = None"
proof (induction its rule: paired.induct)
  case (3 s x rest)
  from "3.prems" have "fst x \<noteq> k" by (auto split: if_splits)
  with "3.prems" have "fst s \<noteq> timeKey k" by (auto dest: timeKey_inj)
  moreover from "3.prems" have "fst x \<noteq> timeKey k" by (auto dest: derived_not_timeKey)
  ultimately show ?case using 3 by (auto split: if_splits)
qed simp_all

lemma paired_find_Some:
  "paired its \<Longrightarrow> derived k \<Longrightarrow> find (\<lambda>it. fst it = k) its = Some x
   \<Longrightarrow> \<exists>s. find (\<lambda>it. fst it = timeKey k) its = Some s \<and> snd (snd s) = snd (snd x)"
proof (induction its rule: paired.induct)
  case (3 s y rest)
  from "3.prems" have sk: "fst s \<noteq> k" by (auto dest: derived_not_timeKey)
  from "3.prems" have yt: "fst y \<noteq> timeKey k" by (auto dest: derived_not_timeKey)
  show ?case
  proof (cases "fst y = k")
    case True
    with "3.prems" sk show ?thesis by auto
  next
    case False
    with "3.prems" have "fst s \<noteq> timeKey k" by (auto dest: timeKey_inj)
    with False sk yt 3 show ?thesis by auto
  qed
qed simp_all

lemma paired_without:
  "paired its \<Longrightarrow> derived k \<Longrightarrow> paired (without (timeKey k) (without k its))"
proof (induction its rule: paired.induct)
  case 1
  show ?case by (simp add: without_def)
next
  case (3 s y rest)
  from "3.prems" have sk: "fst s \<noteq> k" by (auto dest: derived_not_timeKey)
  from "3.prems" have yt: "fst y \<noteq> timeKey k" by (auto dest: derived_not_timeKey)
  show ?case
  proof (cases "fst y = k")
    case True
    with "3.prems" have "without (timeKey k) (without k (s # y # rest)) = rest"
      using sk by (simp add: without_def) (metis (mono_tags, lifting) filter_True imageI)
    with "3.prems" show ?thesis by simp
  next
    case False
    with "3.prems" have st: "fst s \<noteq> timeKey k" by (auto dest: timeKey_inj)
    have w: "without (timeKey k) (without k (s # y # rest))
            = s # y # without (timeKey k) (without k rest)"
      using False sk yt st by (simp add: without_def)
    have sub: "fst ` set (without (timeKey k) (without k rest)) \<subseteq> fst ` set rest"
      by (simp add: keys_without) blast
    from pairedD [OF "3.prems"(1)] have "fst y \<notin> fst ` set rest" "fst s \<notin> fst ` set rest" by blast+
    with sub have "fst y \<notin> fst ` set (without (timeKey k) (without k rest))"
      "fst s \<notin> fst ` set (without (timeKey k) (without k rest))" by blast+
    with 3 show ?thesis unfolding w by simp
  qed
qed simp_all

lemma paired_take:
  "paired its \<Longrightarrow> paired (take (2 * j) its)"
proof (induction its arbitrary: j rule: paired.induct)
  case (3 s x rest)
  show ?case
  proof (cases j)
    case 0
    then show ?thesis by simp
  next
    case (Suc i)
    have sub: "fst ` set (take (2 * i) rest) \<subseteq> fst ` set rest"
      by (rule image_mono) (rule set_take_subset)
    from pairedD [OF "3.prems"(1)] have "fst x \<notin> fst ` set rest" "fst s \<notin> fst ` set rest" by blast+
    with sub have "fst x \<notin> fst ` set (take (2 * i) rest)" "fst s \<notin> fst ` set (take (2 * i) rest)"
      by blast+
    with 3 Suc show ?thesis by simp
  qed
qed simp_all

lemma without_Cons:
  "without k (x # xs) = (if fst x = k then without k xs else x # without k xs)"
  by (simp add: without_def)

lemma gets_shape:
  assumes p: "paired (items fc)" and d: "derived k"
  shows "items (snd (FlatCache_get (snd (FlatCache_get fc k now)) (timeKey k) now))
           = without (timeKey k) (without k (items fc))
       \<or> (\<exists>s x. items (snd (FlatCache_get (snd (FlatCache_get fc k now)) (timeKey k) now))
                    = s # x # without (timeKey k) (without k (items fc))
                \<and> fst s = timeKey k \<and> fst x = k \<and> snd (snd s) = snd (snd x))"
proof (cases "find (\<lambda>it. fst it = k) (items fc)")
  case None
  from paired_find_None [OF p d None] have t: "find (\<lambda>it. fst it = timeKey k) (items fc) = None" .
  from find_None_key [OF None] find_None_key [OF t]
  have "without (timeKey k) (without k (items fc)) = items fc"
    by (simp add: without_absent)
  with None t show ?thesis by (simp add: FlatCache_get_def)
next
  case (Some x)
  from paired_find_Some [OF p d Some] obtain s where
    s: "find (\<lambda>it. fst it = timeKey k) (items fc) = Some s" and t: "snd (snd s) = snd (snd x)"
    by blast
  from find_Some_key [OF Some] have xk: "fst x = k" by simp
  from find_Some_key [OF s] have sk: "fst s = timeKey k" by simp
  from derived_not_timeKey [OF d, of k] have ne: "timeKey k \<noteq> k" by simp
  have f: "find (\<lambda>it. fst it = timeKey k) (without k (items fc)) = Some s"
    using s ne by (simp add: find_without)
  show ?thesis
  proof (cases "dropped (ttl fc) (now - snd (snd x))")
    case True
    with Some f t show ?thesis by (simp add: FlatCache_get_def)
  next
    case False
    with Some f t xk ne have "items (snd (FlatCache_get (snd (FlatCache_get fc k now)) (timeKey k) now))
            = s # x # without (timeKey k) (without k (items fc))"
      by (simp add: FlatCache_get_def without_def)
    with sk xk t show ?thesis by blast
  qed
qed

lemma sets_paired:
  assumes d: "derived k"
      and R: "paired R" "k \<notin> fst ` set R" "timeKey k \<notin> fst ` set R"
      and I: "I = R \<or> (\<exists>s x. I = s # x # R \<and> fst s = timeKey k \<and> fst x = k)"
      and n: "0 < n \<longrightarrow> even n"
  shows "paired (evict n ((timeKey k, tv, now) # without (timeKey k)
                   (evict n ((k, v, now) # without k I))))"
proof -
  from derived_not_timeKey [OF d, of k] have ne: "timeKey k \<noteq> k" by simp
  have wk: "without k I = R \<or> (\<exists>s. without k I = s # R \<and> fst s = timeKey k)"
  proof -
    from I show ?thesis
    proof
      assume "I = R"
      with without_absent [OF R(2)] show ?thesis by simp
    next
      assume "\<exists>s x. I = s # x # R \<and> fst s = timeKey k \<and> fst x = k"
      then obtain s x where "I = s # x # R" "fst s = timeKey k" "fst x = k" by blast
      with without_absent [OF R(2)] ne show ?thesis by (simp add: without_Cons)
    qed
  qed
  have top: "\<And>X. paired X \<Longrightarrow> fst ` set X \<subseteq> fst ` set R
               \<Longrightarrow> paired ((timeKey k, tv, now) # (k, v, now) # X)"
    using d R(2,3) by auto
  show ?thesis
  proof (cases "0 < n")
    case False
    from wk without_absent [OF R(3)] ne
    have "without (timeKey k) ((k, v, now) # without k I) = (k, v, now) # R"
      by (auto simp add: without_Cons)
    with False top [OF R(1)] show ?thesis by (simp add: evict_def)
  next
    case True
    with n have "even (nat n)" "0 < nat n" by (simp_all add: even_nat_iff)
    then obtain j where j: "nat n = Suc (Suc (2 * j))"
      by (metis One_nat_def Suc_pred add_Suc_right even_Suc evenE mult_2 odd_pos)
    have sub: "\<And>i. fst ` set (take i R) \<subseteq> fst ` set R"
      by (rule image_mono) (rule set_take_subset)
    have "without (timeKey k) (evict n ((k, v, now) # without k I))
            = (k, v, now) # take (2 * j) R
        \<or> without (timeKey k) (evict n ((k, v, now) # without k I))
            = (k, v, now) # take (Suc (2 * j)) R"
    proof -
      from wk show ?thesis
      proof
        assume "without k I = R"
        moreover from sub [of "Suc (2 * j)"] R(3)
        have "timeKey k \<notin> fst ` set (take (Suc (2 * j)) R)" by blast
        ultimately show ?thesis
          using True j ne by (simp add: evict_def without_Cons without_absent)
      next
        assume "\<exists>s. without k I = s # R \<and> fst s = timeKey k"
        then obtain s where s: "without k I = s # R" "fst s = timeKey k" by blast
        from sub [of "2 * j"] R(3)
        have "timeKey k \<notin> fst ` set (take (2 * j) R)" by blast
        then have "without (timeKey k) (take (2 * j) R) = take (2 * j) R"
          by (rule without_absent)
        with s True j ne show ?thesis
          by (simp add: evict_def without_Cons)
      qed
    qed
    then have "evict n ((timeKey k, tv, now) # without (timeKey k)
                   (evict n ((k, v, now) # without k I)))
                 = (timeKey k, tv, now) # (k, v, now) # take (2 * j) R"
      using True j by (auto simp add: evict_def min_def)
    with top [OF paired_take [OF R(1)] sub] show ?thesis by simp
  qed
qed

lemma lruSize_FlatCache_get [simp]: "lruSize (snd (FlatCache_get fc k now)) = lruSize fc"
  by (simp add: FlatCache_get_def split: option.splits)

lemma lruSize_FlatCache_set [simp]: "lruSize (FlatCache_set fc k v now) = lruSize fc"
  by (simp add: FlatCache_set_def)

lemma items_FlatCache_set:
  "items (FlatCache_set fc k v now) = evict (lruSize fc) ((k, v, now) # without k (items fc))"
  by (simp add: FlatCache_set_def)

lemma deriveKey_derived: "deriveKey args = Inr k \<Longrightarrow> derived k"
  by (auto simp add: deriveKey_def JSON_stringify_def derived_def split: if_splits sum.splits)

lemma stores_getItem:
  "stores (snd (getItem (swr_storage a) k now w)) a = snd (FlatCache_get (stores w a) k now)"
  by (simp add: swr_storage_def get_at_def case_prod_beta)

lemma stores_persist_value:
  "stores (persist_value (swr_storage a) key v now w) a
     = FlatCache_set (FlatCache_set (stores w a) key v now) (timeKey key) (JNum now) now"
  by (simp add: persist_value_def swr_storage_def set_at_def save_at_def)

lemma stores_swrCache:
  "stores (snd (createStaleWhileRevalidateCache (swr_storage a) mn mx key (call fn args) now w)) a
     = snd (FlatCache_get (snd (FlatCache_get (stores w a) key now)) (timeKey key) now)
   \<or> (\<exists>v. stores (snd (createStaleWhileRevalidateCache (swr_storage a) mn mx key (call fn args)
                       now w)) a
            = FlatCache_set
                (FlatCache_set
                   (snd (FlatCache_get (snd (FlatCache_get (stores w a) key now)) (timeKey key) now))
                   key v now)
                (timeKey key) (JNum now) now)"
  by (auto simp add: createStaleWhileRevalidateCache_def Let_def case_prod_beta stores_getItem
        stores_persist_value split: sum.splits)

lemma swrCache_paired:
  assumes p: "paired (items (stores w a))" and d: "derived key"
      and n: "0 < lruSize (stores w a) \<longrightarrow> even (lruSize (stores w a))"
  shows "paired (items (stores (snd (createStaleWhileRevalidateCache (swr_storage a) mn mx key
                                       (call fn args) now w)) a))"
    and "lruSize (stores (snd (createStaleWhileRevalidateCache (swr_storage a) mn mx key
                                 (call fn args) now w)) a) = lruSize (stores w a)"
proof -
  let ?fc = "stores w a"
  let ?g = "snd (FlatCache_get (snd (FlatCache_get ?fc key now)) (timeKey key) now)"
  let ?R = "without (timeKey key) (without key (items ?fc))"
  let ?r = "stores (snd (createStaleWhileRevalidateCache (swr_storage a) mn mx key
                            (call fn args) now w)) a"
  note g = gets_shape [OF p d, of now]
  have R: "paired ?R" "key \<notin> fst ` set ?R" "timeKey key \<notin> fst ` set ?R"
    using paired_without [OF p d] by (simp_all add: keys_without)
  have pg: "paired (items ?g)"
    using g R d by auto
  from g have I: "items ?g = ?R
       \<or> (\<exists>s x. items ?g = s # x # ?R \<and> fst s = timeKey key \<and> fst x = key)"
    by blast
  have ps: "\<And>v. paired (items (FlatCache_set (FlatCache_set ?g key v now) (timeKey key)
                                   (JNum now) now))"
    using sets_paired [OF d R I n] by (simp add: items_FlatCache_set)
  from stores_swrCache [of a mn mx key fn args now w] pg ps show "paired (items ?r)" by auto
  from stores_swrCache [of a mn mx key fn args now w] show "lruSize ?r = lruSize ?fc" by auto
qed

lemma swr_cached_paired:
  assumes p: "paired (items (stores w a))"
      and n: "0 < lruSize (stores w a) \<longrightarrow> even (lruSize (stores w a))"
  shows "paired (items (stores (snd (invoke (swr_cached e a fn) args now w)) a))
       \<and> lruSize (stores (snd (invoke (swr_cached e a fn) args now w)) a) = lruSize (stores w a)"
proof (cases "deriveKey args")
  case (Inl err)
  with p show ?thesis by (simp add: swr_cached_def)
next
  case (Inr key)
  from swrCache_paired [OF p deriveKey_derived [OF Inr] n] Inr show ?thesis
    by (simp add: swr_cached_def case_prod_beta split: sum.splits)
qed

lemma swr_run_paired:
  "paired (items (stores w a)) \<Longrightarrow> (0 < lruSize (stores w a) \<longrightarrow> even (lruSize (stores w a)))
   \<Longrightarrow> paired (items (stores (snd (run (swr_cached e a fn) cs w)) a))"
proof (induction cs arbitrary: w)
  case Nil
  then show ?case by simp
next
  case (Cons c cs)
  obtain args now where c: "c = (args, now)" by (cases c)
  from swr_cached_paired [OF Cons.prems, of e fn args now] Cons.prems(2)
  have "paired (items (stores (snd (invoke (swr_cached e a fn) args now w)) a))"
    and "0 < lruSize (stores (snd (invoke (swr_cached e a fn) args now w)) a)
         \<longrightarrow> even (lruSize (stores (snd (invoke (swr_cached e a fn) args now w)) a))"
    by simp_all
  from Cons.IH [OF this] show ?case by (simp add: c case_prod_beta)
qed

text \<open>
  C8: the \<open>FlatCache\<close> that \<open>swr\<close> creates has \<open>lruSize\<close> exactly twice the caller's
  \<open>max\<close> when \<open>max > 0\<close>, and 0, which is no bound, when \<open>max\<close> is 0 or omitted; and
  with that capacity a store whose items are paired stays paired through every sequence
  of calls, so that eviction never takes a timestamp and leaves its value, or a value
  and leaves its timestamp.
\<close>

theorem swr_lruSize_doubled:
  assumes "ASTRO_CACHE_ENABLED e"
  shows "(\<forall>n. opt_max options = Some n \<and> 0 < n \<longrightarrow>
            lruSize (stores (world (snd (swr e fn options m))) (allocated (world m))) = 2 * n)
       \<and> (opt_max options = None \<or> opt_max options = Some 0 \<longrightarrow>
            lruSize (stores (world (snd (swr e fn options m))) (allocated (world m))) = 0)
       \<and> (lruSize (stores w (allocated (world m)))
              = lruSize (stores (world (snd (swr e fn options m))) (allocated (world m))) \<and>
            paired (items (stores w (allocated (world m)))) \<longrightarrow>
              paired (items (stores (snd (run (fst (swr e fn options m)) cs w))
                               (allocated (world m)))))"
proof -
  let ?a = "allocated (world m)"
  let ?c = "stores (world (snd (swr e fn options m))) ?a"
  have l: "lruSize ?c = (if nullish (opt_max options) 0 = 0 then 0
                         else nullish (opt_max options) 0 * 2)"
    using assms
    by (simp add: swr_def Let_def FlatCache_load_def swr_FlatCache_def split: option.splits)
  then have ev: "0 < lruSize ?c \<longrightarrow> even (lruSize ?c)" by simp
  have "lruSize (stores w ?a) = lruSize ?c \<and> paired (items (stores w ?a)) \<longrightarrow>
          paired (items (stores (snd (run (fst (swr e fn options m)) cs w)) ?a))"
  proof
    assume h: "lruSize (stores w ?a) = lruSize ?c \<and> paired (items (stores w ?a))"
    with ev have "0 < lruSize (stores w ?a) \<longrightarrow> even (lruSize (stores w ?a))" by simp
    from swr_run_paired [OF _ this, of e fn cs] h
    show "paired (items (stores (snd (run (fst (swr e fn options m)) cs w)) ?a))"
      by (simp add: swr_enabled [OF assms])
  qed
  with l show ?thesis by (auto simp add: nullish_def)
qed

theorem swr_lruSize_doubled_witness:
  "ASTRO_CACHE_ENABLED (test_env True) \<and>
   lruSize (stores (world (snd (swr (test_env True) versioned (users_options (Some 1))
                                  (initial 1)))) 0) = 2 \<and>
   lruSize (stores (world (snd (swr (test_env True) versioned (users_options None)
                                  (initial 1)))) 0) = 0 \<and>
   paired (items (stores (world (snd (swr (test_env True) versioned (users_options (Some 1))
                                        (initial 1)))) 0)) \<and>
   paired (items (stores (snd (run (fst (swr (test_env True) versioned (users_options (Some 1))
                                          (initial 1)))
                                 [([JNum 1], 0), ([JNum 2], 1)]
                                 (world (snd (swr (test_env True) versioned
                                                (users_options (Some 1)) (initial 1)))))) 0)) \<and>
   map fst (items (stores (snd (run (fst (swr (test_env True) versioned (users_options (Some 1))
                                           (initial 1)))
                                 [([JNum 1], 0), ([JNum 2], 1)]
                                 (world (snd (swr (test_env True) versioned
                                                (users_options (Some 1)) (initial 1)))))) 0))
     = [''[2]__swr_time__'', ''[2]'']"
proof -
  let ?m = "swr (test_env True) versioned (users_options (Some 1)) (initial 1)"
  have h: "ASTRO_CACHE_ENABLED (test_env True)" by (simp add: test_env_def)
  have a: "allocated (world (initial (1::int))) = 0" by (simp add: initial_def empty_world_def)
  have k: "deriveKey [JNum 1] = Inr ''[1]''" "deriveKey [JNum 2] = Inr ''[2]''"
    by (simp_all add: deriveKey_def JSON_stringify_def Number_toString_def digits.simps
          digit_char_def)
  have p: "paired (items (stores (world (snd ?m)) 0))"
    by (simp add: fixture_defs model_defs)
  have i: "map fst (items (stores (snd (run (fst ?m) [([JNum 1], 0), ([JNum 2], 1)]
                                          (world (snd ?m)))) 0))
             = [''[2]__swr_time__'', ''[2]'']"
    by (simp add: fixture_defs model_defs k)
  note t = swr_lruSize_doubled [OF h, where options = "users_options (Some 1)" and fn = versioned
             and m = "initial 1" and w = "world (snd ?m)" and cs = "[([JNum 1], 0), ([JNum 2], 1)]"]
  have l: "lruSize (stores (world (snd ?m)) 0) = 2"
    using t by (simp add: a users_options_def)
  have r: "paired (items (stores (snd (run (fst ?m) [([JNum 1], 0), ([JNum 2], 1)]
                                        (world (snd ?m)))) 0))"
    using t p unfolding a by blast
  have z: "lruSize (stores (world (snd (swr (test_env True) versioned (users_options None)
                                  (initial 1)))) 0) = 0"
    using swr_lruSize_doubled [OF h, where options = "users_options None" and fn = versioned
             and m = "initial 1"]
    by (simp add: a users_options_def)
  from h l z p r i show ?thesis by blast
qed

end
